theory Spec2Isabelle
  imports Complex_Main "HOL-Library.Word" "HOL-Library.Log_Nat" "HOL-Library.Multiset"
begin

section \<open>Numbers\<close>

text \<open>
  A JavaScript Number that is finite is modelled by the rational it denotes.  Where an
  operation of the source can leave the finite Numbers (a division by zero, an overflow),
  the result is a \<open>jsnum\<close>: a finite Number, one of the two infinities or NaN.  The
  strict inequality \<open>!==\<close> of two Numbers holds whenever one of them is NaN, and \<open><\<close>
  never holds then.
\<close>

datatype jsnum = Num rat | PosInf | NegInf | NaN

definition strictNeq :: "jsnum \<Rightarrow> jsnum \<Rightarrow> bool" where
  "strictNeq a b = (a = NaN \<or> b = NaN \<or> a \<noteq> b)"

fun jsLess :: "jsnum \<Rightarrow> jsnum \<Rightarrow> bool" where
  "jsLess NaN _ = False"
| "jsLess _ NaN = False"
| "jsLess (Num x) (Num y) = (x < y)"
| "jsLess (Num _) PosInf = True"
| "jsLess NegInf (Num _) = True"
| "jsLess NegInf PosInf = True"
| "jsLess _ _ = False"

text \<open>
  The engine rounds the result of every arithmetic operation to binary64, to nearest
  with ties to even.  \<open>round64\<close> is that rounding on the rationals for results in the
  normal range: \<open>ilog2 x\<close> is the exponent \<open>e\<close> with \<open>2\<^sup>e \<le> x < 2\<^sup>e\<^sup>+\<^sup>1\<close> and the
  result is the multiple of \<open>2\<^sup>e\<^sup>-\<^sup>5\<^sup>2\<close> nearest to \<open>x\<close>.  It is what the decoders and the
  timestamp synthesizer need: their operands come from integers read from at most eight
  bytes, running sums of such integers and the constants 1000, 100 and 100000, and no
  result is subnormal or overflows.
  \<open>binary64\<close> is the rounding over the whole range, used where the operands are
  arbitrary Numbers: below \<open>2\<^sup>-\<^sup>1\<^sup>0\<^sup>2\<^sup>2\<close> the spacing stays \<open>2\<^sup>-\<^sup>1\<^sup>0\<^sup>7\<^sup>4\<close>, and a result that
  rounds to \<open>2\<^sup>1\<^sup>0\<^sup>2\<^sup>4\<close> or beyond, that is one whose exponent is 1024 or more, is an
  infinity.

  Every arithmetic operation of the source on Numbers is rounded in the model.  An
  integer below \<open>2\<^sup>5\<^sup>3\<close> in magnitude is its own rounding.
\<close>

definition ilog2 :: "rat \<Rightarrow> int" where
  "ilog2 x = (let (p, q) = quotient_of x; d = bitlen p - bitlen q
              in if 2 powi d \<le> x then d else d - 1)"

definition rne :: "rat \<Rightarrow> int" where
  "rne y = (let f = \<lfloor>y\<rfloor>; d = y - of_int f
            in if d < 1 / 2 then f else if 1 / 2 < d then f + 1
               else if even f then f else f + 1)"

definition round64 :: "rat \<Rightarrow> rat" where
  "round64 x = (if x = 0 then 0
                else let u = 2 powi (ilog2 \<bar>x\<bar> - 52) in of_int (rne (x / u)) * u)"

definition binary64 :: "rat \<Rightarrow> jsnum" where
  "binary64 x = (if x = 0 then Num 0
                 else let u = 2 powi (max (ilog2 \<bar>x\<bar>) (- 1022) - 52);
                          r = of_int (rne (x / u)) * u
                      in if r = 0 then Num 0
                         else if ilog2 \<bar>r\<bar> < 1024 then Num r
                         else if 0 < r then PosInf else NegInf)"

text \<open>\<open>ToIntegerOrInfinity\<close> on a finite Number: towards zero.\<close>

definition trunc :: "rat \<Rightarrow> int" where
  "trunc v = (if 0 \<le> v then \<lfloor>v\<rfloor> else \<lceil>v\<rceil>)"


section \<open>Binary decoding (utils/api.js)\<close>

text \<open>
  A buffer is the list of its bytes; the decoders read it through a \<open>DataView\<close> that
  covers it.  A read that does not fit in the buffer throws a \<open>RangeError\<close>, and so do
  a typed-array view longer than the buffer and \<open>Date.prototype.toISOString\<close> on an
  invalid date.  \<open>InvalidFormat\<close> is the \<open>Error\<close> that \<open>parseBinaryData\<close> throws itself
  when the magic is not \<open>TICK\<close>.
\<close>

type_synonym byte = "8 word"

definition PRICE_SCALE :: rat where
  "PRICE_SCALE = 100000"

definition SIZE_SCALE :: rat where
  "SIZE_SCALE = 100"

datatype error = InvalidFormat | RangeError

definition bindE :: "error + 'a \<Rightarrow> ('a \<Rightarrow> error + 'b) \<Rightarrow> error + 'b" where
  "bindE m f = (case m of Inl e \<Rightarrow> Inl e | Inr x \<Rightarrow> f x)"

subsection \<open>DataView reads, little-endian\<close>

definition leInt :: "byte list \<Rightarrow> int" where
  "leInt bs = foldr (\<lambda>b n. uint b + 256 * n) bs 0"

definition toSigned :: "nat \<Rightarrow> int \<Rightarrow> int" where
  "toSigned w n = (if n < 2 ^ (w - 1) then n else n - 2 ^ w)"

definition readBytes :: "byte list \<Rightarrow> nat \<Rightarrow> nat \<Rightarrow> error + byte list" where
  "readBytes buf off n =
     (if off + n \<le> length buf then Inr (take n (drop off buf)) else Inl RangeError)"

definition getUint8 :: "byte list \<Rightarrow> nat \<Rightarrow> error + nat" where
  "getUint8 buf off = bindE (readBytes buf off 1) (\<lambda>bs. Inr (nat (leInt bs)))"

definition getUint32 :: "byte list \<Rightarrow> nat \<Rightarrow> error + nat" where
  "getUint32 buf off = bindE (readBytes buf off 4) (\<lambda>bs. Inr (nat (leInt bs)))"

definition getInt32 :: "byte list \<Rightarrow> nat \<Rightarrow> error + int" where
  "getInt32 buf off = bindE (readBytes buf off 4) (\<lambda>bs. Inr (toSigned 32 (leInt bs)))"

definition getBigUint64 :: "byte list \<Rightarrow> nat \<Rightarrow> error + int" where
  "getBigUint64 buf off = bindE (readBytes buf off 8) (\<lambda>bs. Inr (leInt bs))"

definition getBigInt64 :: "byte list \<Rightarrow> nat \<Rightarrow> error + int" where
  "getBigInt64 buf off = bindE (readBytes buf off 8) (\<lambda>bs. Inr (toSigned 64 (leInt bs)))"

subsection \<open>Dates and decimal strings\<close>

text \<open>
  An ISO string \<open>YYYY-MM-DDTHH:mm:ss.sssZ\<close> is modelled by the epoch milliseconds it
  writes: \<open>new Date(v).toISOString()\<close> writes the time value of the date, which is \<open>v\<close>
  cut to an integer when \<open>\<bar>v\<bar> \<le> 8.64e15\<close> and invalid otherwise, and
  \<open>new Date(string).getTime()\<close> reads the same integer back.
\<close>

definition toISOString :: "rat \<Rightarrow> error + int" where
  "toISOString v = (if \<bar>v\<bar> \<le> 8640000000000000 then Inr (trunc v) else Inl RangeError)"

text \<open>
  \<open>Number.prototype.toFixed\<close> with \<open>f\<close> fraction digits, below \<open>1e21\<close> (a price or a
  size is below \<open>2\<^sup>3\<^sup>1\<close>): the sign, then the digits of the integer \<open>n\<close> for which
  \<open>n / 10\<^sup>f\<close> is nearest to the magnitude, the larger one of two, padded with zeros
  to \<open>f + 1\<close> digits, with the point before the last \<open>f\<close>.
\<close>

definition digitChar :: "int \<Rightarrow> char" where
  "digitChar d = ''0123456789'' ! nat d"

function digits :: "int \<Rightarrow> string" where
  "digits n = (if n < 10 then [digitChar n] else digits (n div 10) @ [digitChar (n mod 10)])"
  by pat_completeness auto
termination
  by (relation "measure nat") auto

declare digits.simps [simp del]

definition toFixed :: "nat \<Rightarrow> rat \<Rightarrow> string" where
  "toFixed f x =
     (let n = \<lfloor>\<bar>x\<bar> * 10 ^ f + 1 / 2\<rfloor>;
          m = digits n;
          m0 = (if length m \<le> f then replicate (f + 1 - length m) (CHR ''0'') @ m else m);
          k = length m0
      in (if x < 0 then ''-'' else '''') @
         (if f = 0 then m else take (k - f) m0 @ ''.'' @ drop (k - f) m0))"

text \<open>\<open>parseFloat\<close> on a decimal literal, a sign, digits, a point and digits.\<close>

definition digitVal :: "char \<Rightarrow> int" where
  "digitVal c = of_char c - 48"

definition intOfDigits :: "string \<Rightarrow> int" where
  "intOfDigits s = foldl (\<lambda>a c. 10 * a + digitVal c) 0 s"

definition parseFloat :: "string \<Rightarrow> rat" where
  "parseFloat s =
     (let neg = (s \<noteq> [] \<and> hd s = CHR ''-'');
          body = (if neg then tl s else s);
          ip = takeWhile (\<lambda>c. c \<noteq> CHR ''.'') body;
          fp = drop 1 (dropWhile (\<lambda>c. c \<noteq> CHR ''.'') body);
          v = of_int (intOfDigits (ip @ fp)) / 10 ^ length fp
      in if neg then - v else v)"

subsection \<open>The tick stream: parseBinaryData\<close>

record tick =
  timestamp :: int
  time :: int
  priceBid :: string
  priceAsk :: string
  sizeBid :: string
  sizeAsk :: string
  bid_price :: string
  ask_price :: string
  bid_size :: string
  ask_size :: string

definition magicTICK :: "byte list" where
  "magicTICK = [0x54, 0x49, 0x43, 0x4B]"

text \<open>\<open>Number(absoluteTimestampUs) / 1000\<close>: the conversion of the BigInt and the quotient
  are both rounded.\<close>

definition usToMs :: "int \<Rightarrow> rat" where
  "usToMs us = round64 (round64 (of_int us) / 1000)"

text \<open>The body of the loop: the row at \<open>rowOffset\<close>.\<close>

definition parseRow :: "byte list \<Rightarrow> int \<Rightarrow> nat \<Rightarrow> error + tick" where
  "parseRow buf initialTimestampUs rowOffset =
     bindE (getBigInt64 buf rowOffset) (\<lambda>deltaTimeUs.
     bindE (getInt32 buf (rowOffset + 8)) (\<lambda>priceBidScaled.
     bindE (getInt32 buf (rowOffset + 12)) (\<lambda>priceAskScaled.
     bindE (getInt32 buf (rowOffset + 16)) (\<lambda>sizeBidScaled.
     bindE (getInt32 buf (rowOffset + 20)) (\<lambda>sizeAskScaled.
     let absoluteTimestampUs = initialTimestampUs + deltaTimeUs;
         timestampMs = usToMs absoluteTimestampUs
     in bindE (toISOString timestampMs) (\<lambda>ts.
     let priceBidN = round64 (of_int priceBidScaled / PRICE_SCALE);
         priceAskN = round64 (of_int priceAskScaled / PRICE_SCALE);
         sizeBidN = round64 (of_int sizeBidScaled / SIZE_SCALE);
         sizeAskN = round64 (of_int sizeAskScaled / SIZE_SCALE)
     in Inr \<lparr>timestamp = ts, time = ts,
              priceBid = toFixed 5 priceBidN, priceAsk = toFixed 5 priceAskN,
              sizeBid = toFixed 2 sizeBidN, sizeAsk = toFixed 2 sizeAskN,
              bid_price = toFixed 5 priceBidN, ask_price = toFixed 5 priceAskN,
              bid_size = toFixed 2 sizeBidN, ask_size = toFixed 2 sizeAskN\<rparr>))))))"

function parseRows :: "byte list \<Rightarrow> int \<Rightarrow> nat \<Rightarrow> nat \<Rightarrow> tick list \<Rightarrow> error + tick list" where
  "parseRows buf initialTimestampUs numRows i data =
     (if i < numRows
      then (case parseRow buf initialTimestampUs (17 + i * 24) of
              Inl e \<Rightarrow> Inl e
            | Inr t \<Rightarrow> parseRows buf initialTimestampUs numRows (i + 1) (data @ [t]))
      else Inr data)"
  by pat_completeness auto
termination
  by (relation "measure (\<lambda>(buf, initialTimestampUs, numRows, i, data). numRows - i)") auto

declare parseRows.simps [simp del]

text \<open>The header is read whole before the magic is compared.\<close>

definition parseBinaryData :: "byte list \<Rightarrow> error + tick list" where
  "parseBinaryData buf =
     bindE (readBytes buf 0 4) (\<lambda>magicBytes.
     bindE (getUint8 buf 4) (\<lambda>version.
     bindE (getUint32 buf 5) (\<lambda>numRows.
     bindE (getBigUint64 buf 9) (\<lambda>initialTimestampUs.
     if magicBytes \<noteq> magicTICK then Inl InvalidFormat
     else parseRows buf initialTimestampUs numRows 0 []))))"

text \<open>The fields of a buffer as the decoder reads them.\<close>

definition headerNumRows :: "byte list \<Rightarrow> nat" where
  "headerNumRows buf = nat (leInt (take 4 (drop 5 buf)))"

definition headerInitialTimestampUs :: "byte list \<Rightarrow> int" where
  "headerInitialTimestampUs buf = leInt (take 8 (drop 9 buf))"

definition rowDeltaTimeUs :: "byte list \<Rightarrow> nat \<Rightarrow> int" where
  "rowDeltaTimeUs buf k = toSigned 64 (leInt (take 8 (drop (17 + k * 24) buf)))"

definition rowField32 :: "byte list \<Rightarrow> nat \<Rightarrow> nat \<Rightarrow> int" where
  "rowField32 buf k off = toSigned 32 (leInt (take 4 (drop (17 + k * 24 + off) buf)))"

text \<open>
  A valid tick buffer: the magic, all the bytes that the header announces, and every row
  within the range of \<open>Date\<close>.
\<close>

definition validTickBuffer :: "byte list \<Rightarrow> bool" where
  "validTickBuffer buf =
     (take 4 buf = magicTICK \<and> 17 + 24 * headerNumRows buf \<le> length buf \<and>
      (\<forall>k < headerNumRows buf.
         \<bar>usToMs (headerInitialTimestampUs buf + rowDeltaTimeUs buf k)\<bar> \<le> 8640000000000000))"

text \<open>A decimal string with exactly \<open>f\<close> digits after the point.\<close>

definition isDigit :: "char \<Rightarrow> bool" where
  "isDigit c = (c \<in> set ''0123456789'')"

definition fixedDecimal :: "nat \<Rightarrow> string \<Rightarrow> bool" where
  "fixedDecimal f s =
     (let body = (if s \<noteq> [] \<and> hd s = CHR ''-'' then tl s else s);
          ip = takeWhile (\<lambda>c. c \<noteq> CHR ''.'') body;
          rest = dropWhile (\<lambda>c. c \<noteq> CHR ''.'') body
      in ip \<noteq> [] \<and> list_all isDigit ip \<and> rest \<noteq> [] \<and>
         length (tl rest) = f \<and> list_all isDigit (tl rest))"

subsection \<open>The level-2 stream: parseBinaryLevel2Data\<close>

text \<open>
  The table of exchange labels is made from the mapping string by \<open>TextDecoder\<close>,
  \<open>split\<close> and \<open>parseInt\<close> of the platform; the decoder takes it as the parameter
  \<open>exchangeMapOf\<close>, from the mapping bytes to the label of each code that has a
  non-empty one.
\<close>

record l2Event =
  l2_timestamp :: int
  l2_timestamp_ms :: rat
  l2_price :: rat
  l2_size :: int
  l2_exchange :: string
  l2_entry_type :: nat

record l2Row =
  r_deltaTimeMs :: int
  r_priceDelta :: int
  r_size :: int
  r_entryType :: nat
  r_exchangeCode :: nat

definition readL2Row :: "byte list \<Rightarrow> nat \<Rightarrow> error + l2Row" where
  "readL2Row buf rowOffset =
     bindE (getInt32 buf rowOffset) (\<lambda>deltaTimeMs.
     bindE (getInt32 buf (rowOffset + 4)) (\<lambda>priceDelta.
     bindE (getInt32 buf (rowOffset + 8)) (\<lambda>sz.
     bindE (getUint8 buf (rowOffset + 12)) (\<lambda>entryType.
     bindE (getUint8 buf (rowOffset + 13)) (\<lambda>exchangeCode.
     Inr \<lparr>r_deltaTimeMs = deltaTimeMs, r_priceDelta = priceDelta, r_size = sz,
           r_entryType = entryType, r_exchangeCode = exchangeCode\<rparr>)))))"

definition l2EventOf :: "(nat \<rightharpoonup> string) \<Rightarrow> rat \<Rightarrow> rat \<Rightarrow> l2Row \<Rightarrow> error + l2Event" where
  "l2EventOf exchangeMap cumulativeTimeMs cumulativePrice r =
     (let price = round64 (cumulativePrice / PRICE_SCALE);
          exchange = (case exchangeMap (r_exchangeCode r) of None \<Rightarrow> ''UNKNOWN'' | Some l \<Rightarrow> l)
      in bindE (toISOString cumulativeTimeMs) (\<lambda>ts.
         Inr \<lparr>l2_timestamp = ts, l2_timestamp_ms = cumulativeTimeMs,
               l2_price = parseFloat (toFixed 4 price), l2_size = r_size r,
               l2_exchange = exchange, l2_entry_type = r_entryType r\<rparr>))"

text \<open>
  The loop over the rows.  \<open>cumulativeTimeMs\<close> and \<open>cumulativePrice\<close> are Numbers: each
  \<open>+=\<close> rounds its sum.
\<close>

function l2Rows ::
  "(nat \<rightharpoonup> string) \<Rightarrow> byte list \<Rightarrow> nat \<Rightarrow> nat \<Rightarrow> rat \<Rightarrow> rat \<Rightarrow> l2Event list
   \<Rightarrow> error + l2Event list" where
  "l2Rows exchangeMap buf offset i cumulativeTimeMs cumulativePrice data =
     (if (of_nat i :: rat) < (of_nat (length buf) - of_nat offset) / 14
      then (case readL2Row buf (offset + i * 14) of
              Inl e \<Rightarrow> Inl e
            | Inr r \<Rightarrow>
               (case l2EventOf exchangeMap (round64 (cumulativeTimeMs + of_int (r_deltaTimeMs r)))
                       (round64 (cumulativePrice + of_int (r_priceDelta r))) r of
                  Inl e \<Rightarrow> Inl e
                | Inr ev \<Rightarrow> l2Rows exchangeMap buf offset (i + 1)
                             (round64 (cumulativeTimeMs + of_int (r_deltaTimeMs r)))
                             (round64 (cumulativePrice + of_int (r_priceDelta r))) (data @ [ev])))
      else Inr data)"
  by pat_completeness auto
termination
proof (relation "measure (\<lambda>(exchangeMap, buf, offset, i, ct, cp, data). length buf - i)")
  show "wf (measure (\<lambda>(exchangeMap, buf, offset, i, ct, cp, data). length buf - i))" by simp
next
  fix exchangeMap :: "nat \<rightharpoonup> string" and buf :: "byte list" and offset i :: nat
    and cumulativeTimeMs cumulativePrice :: rat and data :: "l2Event list" and x2 x2a
  assume "(of_nat i :: rat) < (of_nat (length buf) - of_nat offset) / 14"
  then have "(of_nat i :: rat) * 14 < of_nat (length buf) - of_nat offset"
    by (simp add: pos_less_divide_eq)
  moreover have "(of_nat i :: rat) \<le> of_nat i * 14" by simp
  ultimately have "(of_nat i :: rat) < of_nat (length buf)" by linarith
  then have "i < length buf" by (simp only: of_nat_less_iff)
  then show "((exchangeMap, buf, offset, i + 1, round64 (cumulativeTimeMs + of_int (r_deltaTimeMs x2)),
               round64 (cumulativePrice + of_int (r_priceDelta x2)), data @ [x2a]),
              (exchangeMap, buf, offset, i, cumulativeTimeMs, cumulativePrice, data))
        \<in> measure (\<lambda>(exchangeMap, buf, offset, i, ct, cp, data). length buf - i)"
    by simp
qed

declare l2Rows.simps [simp del]

definition parseBinaryLevel2Data ::
  "(byte list \<Rightarrow> nat \<rightharpoonup> string) \<Rightarrow> byte list \<Rightarrow> error + l2Event list" where
  "parseBinaryLevel2Data exchangeMapOf buf =
     bindE (getBigUint64 buf 0) (\<lambda>initialTimestampMs.
     bindE (getUint32 buf 8) (\<lambda>mappingLength.
     let mappingBytes = take mappingLength (drop 12 buf);
         offset = 12 + mappingLength
     in l2Rows (exchangeMapOf mappingBytes) buf offset 0 (round64 (of_int initialTimestampMs)) 0 []))"

text \<open>The fields of a level-2 buffer as the decoder reads them.\<close>

definition l2InitialTimestampMs :: "byte list \<Rightarrow> int" where
  "l2InitialTimestampMs buf = leInt (take 8 buf)"

definition l2Offset :: "byte list \<Rightarrow> nat" where
  "l2Offset buf = 12 + nat (leInt (take 4 (drop 8 buf)))"

definition l2NumRows :: "byte list \<Rightarrow> nat" where
  "l2NumRows buf = (length buf - l2Offset buf) div 14"

definition l2DeltaTimeMs :: "byte list \<Rightarrow> nat \<Rightarrow> int" where
  "l2DeltaTimeMs buf k = toSigned 32 (leInt (take 4 (drop (l2Offset buf + k * 14) buf)))"

definition l2PriceDelta :: "byte list \<Rightarrow> nat \<Rightarrow> int" where
  "l2PriceDelta buf k = toSigned 32 (leInt (take 4 (drop (l2Offset buf + k * 14 + 4) buf)))"

text \<open>
  A valid level-2 buffer: the header and the mapping string, then whole rows, every one
  at a cumulative time within the range of \<open>Date\<close> and at a cumulative price within the
  integers that binary64 holds exactly, those up to \<open>2\<^sup>5\<^sup>3\<close> in magnitude.
\<close>

definition validL2Buffer :: "byte list \<Rightarrow> bool" where
  "validL2Buffer buf =
     (l2Offset buf \<le> length buf \<and> (length buf - l2Offset buf) mod 14 = 0 \<and>
      (\<forall>k < l2NumRows buf.
         \<bar>l2InitialTimestampMs buf + (\<Sum>m\<le>k. l2DeltaTimeMs buf m)\<bar> \<le> 8640000000000000 \<and>
         \<bar>\<Sum>m\<le>k. l2PriceDelta buf m\<bar> \<le> 2 ^ 53))"

text \<open>Rounding to 4 decimal places, as \<open>toFixed(4)\<close> followed by \<open>parseFloat\<close> does it:
  to the nearest multiple of 0.0001, a tie away from zero.\<close>

definition roundTo4 :: "rat \<Rightarrow> rat" where
  "roundTo4 x = (if x < 0 then - 1 else 1) * of_int \<lfloor>\<bar>x\<bar> * 10 ^ 4 + 1 / 2\<rfloor> / 10 ^ 4"

section \<open>The aggregator (ChartArea)\<close>

text \<open>
  An element of \<open>allTicksData\<close> is \<open>{ time, bid, ask, mid }\<close>; a point of a line series is
  \<open>{ time, value }\<close>; a candle is \<open>{ time, open, high, low, close }\<close>.  The fields carry a
  prefix because a record field is a constant of the theory.
\<close>

record tickPoint =
  tk_time :: rat
  tk_bid :: rat
  tk_ask :: rat
  tk_mid :: rat

record linePoint =
  lp_time :: jsnum
  lp_value :: rat

record candle =
  c_time :: jsnum
  c_open :: rat
  c_high :: rat
  c_low :: rat
  c_close :: rat

record lineData =
  ld_bid :: "linePoint list"
  ld_ask :: "linePoint list"
  ld_mid :: "linePoint list"

text \<open>
  \<open>Math.floor(t / tf) * tf\<close>, for finite Numbers \<open>t\<close> and \<open>tf\<close>.  With \<open>tf = 0\<close> the
  quotient is NaN or an infinity and the product is NaN.  Otherwise the quotient is rounded;
  when it overflows, \<open>Math.floor\<close> leaves the infinity and the product is the infinity
  with the sign that \<open>tf\<close> gives it; when it is finite, its floor is an integer and the
  product is rounded in turn.
\<close>

definition bucketTime :: "rat \<Rightarrow> rat \<Rightarrow> jsnum" where
  "bucketTime t tf =
     (if tf = 0 then NaN
      else case binary64 (t / tf) of
             Num q \<Rightarrow> binary64 (of_int \<lfloor>q\<rfloor> * tf)
           | PosInf \<Rightarrow> (if 0 < tf then PosInf else NegInf)
           | NegInf \<Rightarrow> (if 0 < tf then NegInf else PosInf)
           | NaN \<Rightarrow> NaN)"

subsection \<open>Full mode: aggregateLineData and aggregateCandleData\<close>

text \<open>
  The loop variables \<open>currentTime\<close>, \<open>currentBid\<close>, \<open>currentAsk\<close>, \<open>currentMid\<close> are
  \<open>null\<close> together before the first tick and set together afterwards: one option holds
  the four.  The body of \<open>ticks.forEach\<close> is \<open>lineStep\<close>.
\<close>

record lineAcc =
  la_bidData :: "linePoint list"
  la_askData :: "linePoint list"
  la_midData :: "linePoint list"
  la_current :: "(jsnum \<times> rat \<times> rat \<times> rat) option"

definition pushCurrent :: "lineAcc \<Rightarrow> lineAcc" where
  "pushCurrent a = (case la_current a of
       None \<Rightarrow> a
     | Some (ct, cb, ca, cm) \<Rightarrow>
         a\<lparr>la_bidData := la_bidData a @ [\<lparr>lp_time = ct, lp_value = cb\<rparr>],
           la_askData := la_askData a @ [\<lparr>lp_time = ct, lp_value = ca\<rparr>],
           la_midData := la_midData a @ [\<lparr>lp_time = ct, lp_value = cm\<rparr>]\<rparr>)"

definition currentTimeNeq :: "(jsnum \<times> rat \<times> rat \<times> rat) option \<Rightarrow> jsnum \<Rightarrow> bool" where
  "currentTimeNeq cur b = (case cur of None \<Rightarrow> True | Some (ct, _) \<Rightarrow> strictNeq ct b)"

definition lineStep :: "rat \<Rightarrow> lineAcc \<Rightarrow> tickPoint \<Rightarrow> lineAcc" where
  "lineStep tf a tick =
     (let b = bucketTime (tk_time tick) tf in
      if currentTimeNeq (la_current a) b
      then (pushCurrent a)\<lparr>la_current := Some (b, tk_bid tick, tk_ask tick, tk_mid tick)\<rparr>
      else a\<lparr>la_current := Some (b, tk_bid tick, tk_ask tick, tk_mid tick)\<rparr>)"

definition aggregateLineData :: "tickPoint list \<Rightarrow> rat \<Rightarrow> lineData" where
  "aggregateLineData ticks tf =
     (if ticks = [] then \<lparr>ld_bid = [], ld_ask = [], ld_mid = []\<rparr>
      else let a = pushCurrent (foldl (lineStep tf)
                     \<lparr>la_bidData = [], la_askData = [], la_midData = [], la_current = None\<rparr> ticks)
           in \<lparr>ld_bid = la_bidData a, ld_ask = la_askData a, ld_mid = la_midData a\<rparr>)"

text \<open>
  In \<open>aggregateCandleData\<close>, \<open>currentCandleTime\<close> is assigned together with
  \<open>currentCandle\<close> and always equals its \<open>time\<close>; the option \<open>ca_current\<close> holds the candle
  and \<open>currentCandleTime\<close> is read off it.
\<close>

record candleAcc =
  ca_candles :: "candle list"
  ca_current :: "candle option"

definition candleTimeNeq :: "candle option \<Rightarrow> jsnum \<Rightarrow> bool" where
  "candleTimeNeq cur b = (case cur of None \<Rightarrow> True | Some c \<Rightarrow> strictNeq (c_time c) b)"

definition pushCandle :: "candleAcc \<Rightarrow> candle list" where
  "pushCandle a = (case ca_current a of None \<Rightarrow> ca_candles a | Some c \<Rightarrow> ca_candles a @ [c])"

definition candleStep :: "rat \<Rightarrow> candleAcc \<Rightarrow> tickPoint \<Rightarrow> candleAcc" where
  "candleStep tf a tick =
     (let b = bucketTime (tk_time tick) tf in
      if candleTimeNeq (ca_current a) b
      then \<lparr>ca_candles = pushCandle a,
            ca_current = Some \<lparr>c_time = b, c_open = tk_mid tick, c_high = tk_mid tick,
                               c_low = tk_mid tick, c_close = tk_mid tick\<rparr>\<rparr>
      else a\<lparr>ca_current := map_option
                (\<lambda>c. c\<lparr>c_high := max (c_high c) (tk_mid tick),
                        c_low := min (c_low c) (tk_mid tick),
                        c_close := tk_mid tick\<rparr>) (ca_current a)\<rparr>)"

definition aggregateCandleData :: "tickPoint list \<Rightarrow> rat \<Rightarrow> candle list" where
  "aggregateCandleData ticks tf =
     (if ticks = [] then []
      else pushCandle (foldl (candleStep tf) \<lparr>ca_candles = [], ca_current = None\<rparr> ticks))"

subsection \<open>The exponential moving averages: calculateEMAs\<close>

text \<open>
  \<open>ta.ema\<close> belongs to the package oakscriptjs; \<open>calculateEMAs\<close> takes it as the
  parameter \<open>ema\<close>.  An entry of its result is \<open>None\<close> when it is \<open>null\<close>, NaN or
  missing; \<open>emaPoints\<close> is the \<open>map\<close> followed by the \<open>filter\<close> that drops them.
\<close>

record emaSeries =
  ema9 :: "linePoint list"
  ema20 :: "linePoint list"

definition closePrices :: "linePoint list \<Rightarrow> rat list" where
  "closePrices midData = map lp_value midData"

definition emaAt :: "rat option list \<Rightarrow> nat \<Rightarrow> rat option" where
  "emaAt vs i = (if i < length vs then vs ! i else None)"

definition emaPoints :: "linePoint list \<Rightarrow> rat option list \<Rightarrow> linePoint list" where
  "emaPoints midData vs =
     List.map_filter
       (\<lambda>(d, i). map_option (\<lambda>v. \<lparr>lp_time = lp_time d, lp_value = v\<rparr>) (emaAt vs i))
       (zip midData [0..<length midData])"

definition calculateEMAs :: "(rat list \<Rightarrow> nat \<Rightarrow> rat option list) \<Rightarrow> linePoint list \<Rightarrow> emaSeries" where
  "calculateEMAs ema midData =
     (if midData = [] then \<lparr>ema9 = [], ema20 = []\<rparr>
      else \<lparr>ema9 = emaPoints midData (ema (closePrices midData) 9),
            ema20 = emaPoints midData (ema (closePrices midData) 20)\<rparr>)"

text \<open>
  Modelled from the spec: \<open>ta.ema\<close>, the function of the package oakscriptjs that
  \<open>calculateEMAs\<close> calls; the package is not part of the source.  Section 4.5 of the
  specification: the value at the first point equals that point's value, and every later
  value is \<open>value[t] \<cdot> \<alpha> + ema[t-1] \<cdot> (1 - \<alpha>)\<close> with \<open>\<alpha> = 2 / (p + 1)\<close>.  \<open>emaFrom\<close> is the
  recurrence after the seed; the arithmetic is that of the specification's formula, over
  the rationals.
\<close>

fun emaFrom :: "rat \<Rightarrow> rat \<Rightarrow> rat list \<Rightarrow> rat list" where
  "emaFrom \<alpha> prev [] = []"
| "emaFrom \<alpha> prev (v # vs) = (v * \<alpha> + prev * (1 - \<alpha>)) # emaFrom \<alpha> (v * \<alpha> + prev * (1 - \<alpha>)) vs"

text \<open>
  Modelled from the spec: \<open>ta.ema\<close> of the package oakscriptjs (not part of the source),
  seeded with the first value as section 4.5 of the specification says, and continued by
  \<open>emaFrom\<close>.
\<close>

definition ta_ema :: "rat list \<Rightarrow> nat \<Rightarrow> rat option list" where
  "ta_ema vs p = (case vs of [] \<Rightarrow> []
                  | v # rest \<Rightarrow> map Some (v # emaFrom (2 / (of_nat p + 1)) v rest))"

subsection \<open>Incremental mode: the live-tick effect\<close>

text \<open>
  A chart series belongs to the charting library, which is not part of the source.  The
  model keeps for each series the points that the series holds and takes the method
  \<open>series.update\<close> as a parameter: \<open>upd s p\<close> is \<open>None\<close> when the call throws, and the
  points that the series holds afterwards otherwise.
\<close>

type_synonym 'p seriesUpdate = "'p list \<Rightarrow> 'p \<Rightarrow> 'p list option"

record quote =
  q_t :: rat
  q_bid :: rat
  q_ask :: rat

record chartSeries =
  sr_bid :: "linePoint list"
  sr_ask :: "linePoint list"
  sr_mid :: "linePoint list"
  sr_candlestick :: "candle list"
  sr_ema9 :: "linePoint list"
  sr_ema20 :: "linePoint list"

text \<open>
  The references of the component that the effect reads and writes make up
  \<open>chartState\<close>.
\<close>

record chartState =
  allTicksData :: "tickPoint list"
  aggregatedLineData :: lineData
  aggregatedCandleData :: "candle list"
  emaData :: emaSeries
  seriesRefs :: chartSeries

definition emptyState :: chartState where
  "emptyState = \<lparr>allTicksData = [],
                 aggregatedLineData = \<lparr>ld_bid = [], ld_ask = [], ld_mid = []\<rparr>,
                 aggregatedCandleData = [],
                 emaData = \<lparr>ema9 = [], ema20 = []\<rparr>,
                 seriesRefs = \<lparr>sr_bid = [], sr_ask = [], sr_mid = [], sr_candlestick = [],
                               sr_ema9 = [], sr_ema20 = []\<rparr>\<rparr>"

text \<open>
  \<open>updateLineSeries\<close> writes the array first and calls \<open>series.update\<close> afterwards: it
  returns the array as written and the result of the call.  The candle branch of the
  effect, \<open>updateCandles\<close>, does the same on the candle array.
\<close>

definition updateLineSeries ::
  "linePoint seriesUpdate \<Rightarrow> jsnum \<Rightarrow> linePoint list \<Rightarrow> linePoint list \<Rightarrow> rat
     \<Rightarrow> linePoint list \<times> linePoint list option" where
  "updateLineSeries upd b series data v =
     (if data = [] \<or> strictNeq (lp_time (last data)) b
      then (data @ [\<lparr>lp_time = b, lp_value = v\<rparr>], upd series \<lparr>lp_time = b, lp_value = v\<rparr>)
      else (data[length data - 1 := (last data)\<lparr>lp_value := v\<rparr>],
            upd series \<lparr>lp_time = b, lp_value = v\<rparr>))"

definition updateCandles ::
  "candle seriesUpdate \<Rightarrow> jsnum \<Rightarrow> candle list \<Rightarrow> candle list \<Rightarrow> rat
     \<Rightarrow> candle list \<times> candle list option" where
  "updateCandles upd b series candleData m =
     (if candleData = [] \<or> strictNeq (c_time (last candleData)) b
      then (candleData @ [\<lparr>c_time = b, c_open = m, c_high = m, c_low = m, c_close = m\<rparr>],
            upd series \<lparr>c_time = b, c_open = m, c_high = m, c_low = m, c_close = m\<rparr>)
      else let lastCandle = (last candleData)\<lparr>c_high := max (c_high (last candleData)) m,
                                              c_low := min (c_low (last candleData)) m,
                                              c_close := m\<rparr>
           in (candleData[length candleData - 1 := lastCandle], upd series lastCandle))"

text \<open>
  The mid price \<open>(bid + ask) / 2\<close>: the sum is rounded, then the quotient.  Bid and ask
  are prices, whose sum is far from the overflow threshold of binary64.  \<open>quoteTick\<close> is
  the object that the effect appends to \<open>allTicksData\<close>.
\<close>

definition midPrice :: "quote \<Rightarrow> rat" where
  "midPrice q = round64 (round64 (q_bid q + q_ask q) / 2)"

definition quoteTick :: "quote \<Rightarrow> tickPoint" where
  "quoteTick q = \<lparr>tk_time = q_t q, tk_bid = q_bid q, tk_ask = q_ask q, tk_mid = midPrice q\<rparr>"

text \<open>
  The statements of the \<open>try\<close> block run in sequence on the state; each returns the state
  it leaves and whether it threw.  When a statement throws, the statements after it do not
  run, and what was written before stays written: \<open>andThen\<close>.
\<close>

type_synonym stmt = "chartState \<Rightarrow> chartState \<times> bool"

definition andThen :: "stmt \<Rightarrow> stmt \<Rightarrow> stmt" where
  "andThen f g st = (case f st of (st', threw) \<Rightarrow> if threw then (st', True) else g st')"

definition pushTick :: "quote \<Rightarrow> stmt" where
  "pushTick q st = (st\<lparr>allTicksData := allTicksData st @ [quoteTick q]\<rparr>, False)"

definition updateBid :: "linePoint seriesUpdate \<Rightarrow> jsnum \<Rightarrow> rat \<Rightarrow> stmt" where
  "updateBid upd b v st =
     (case updateLineSeries upd b (sr_bid (seriesRefs st)) (ld_bid (aggregatedLineData st)) v of
        (data, r) \<Rightarrow>
          let st' = st\<lparr>aggregatedLineData := (aggregatedLineData st)\<lparr>ld_bid := data\<rparr>\<rparr>
          in case r of None \<Rightarrow> (st', True)
             | Some s \<Rightarrow> (st'\<lparr>seriesRefs := (seriesRefs st)\<lparr>sr_bid := s\<rparr>\<rparr>, False))"

definition updateAsk :: "linePoint seriesUpdate \<Rightarrow> jsnum \<Rightarrow> rat \<Rightarrow> stmt" where
  "updateAsk upd b v st =
     (case updateLineSeries upd b (sr_ask (seriesRefs st)) (ld_ask (aggregatedLineData st)) v of
        (data, r) \<Rightarrow>
          let st' = st\<lparr>aggregatedLineData := (aggregatedLineData st)\<lparr>ld_ask := data\<rparr>\<rparr>
          in case r of None \<Rightarrow> (st', True)
             | Some s \<Rightarrow> (st'\<lparr>seriesRefs := (seriesRefs st)\<lparr>sr_ask := s\<rparr>\<rparr>, False))"

definition updateMid :: "linePoint seriesUpdate \<Rightarrow> jsnum \<Rightarrow> rat \<Rightarrow> stmt" where
  "updateMid upd b v st =
     (case updateLineSeries upd b (sr_mid (seriesRefs st)) (ld_mid (aggregatedLineData st)) v of
        (data, r) \<Rightarrow>
          let st' = st\<lparr>aggregatedLineData := (aggregatedLineData st)\<lparr>ld_mid := data\<rparr>\<rparr>
          in case r of None \<Rightarrow> (st', True)
             | Some s \<Rightarrow> (st'\<lparr>seriesRefs := (seriesRefs st)\<lparr>sr_mid := s\<rparr>\<rparr>, False))"

definition updateCandlestick :: "candle seriesUpdate \<Rightarrow> jsnum \<Rightarrow> rat \<Rightarrow> stmt" where
  "updateCandlestick upd b m st =
     (case updateCandles upd b (sr_candlestick (seriesRefs st)) (aggregatedCandleData st) m of
        (candleData, r) \<Rightarrow>
          let st' = st\<lparr>aggregatedCandleData := candleData\<rparr>
          in case r of None \<Rightarrow> (st', True)
             | Some s \<Rightarrow> (st'\<lparr>seriesRefs := (seriesRefs st)\<lparr>sr_candlestick := s\<rparr>\<rparr>, False))"

definition updateEma9 :: "linePoint seriesUpdate \<Rightarrow> stmt" where
  "updateEma9 upd st =
     (if ema9 (emaData st) = [] then (st, False)
      else case upd (sr_ema9 (seriesRefs st)) (last (ema9 (emaData st))) of
             None \<Rightarrow> (st, True)
           | Some s \<Rightarrow> (st\<lparr>seriesRefs := (seriesRefs st)\<lparr>sr_ema9 := s\<rparr>\<rparr>, False))"

definition updateEma20 :: "linePoint seriesUpdate \<Rightarrow> stmt" where
  "updateEma20 upd st =
     (if ema20 (emaData st) = [] then (st, False)
      else case upd (sr_ema20 (seriesRefs st)) (last (ema20 (emaData st))) of
             None \<Rightarrow> (st, True)
           | Some s \<Rightarrow> (st\<lparr>seriesRefs := (seriesRefs st)\<lparr>sr_ema20 := s\<rparr>\<rparr>, False))"

definition updateEMAs ::
  "linePoint seriesUpdate \<Rightarrow> (rat list \<Rightarrow> nat \<Rightarrow> rat option list) \<Rightarrow> stmt" where
  "updateEMAs upd ema st =
     andThen (updateEma9 upd) (updateEma20 upd)
       (st\<lparr>emaData := calculateEMAs ema (ld_mid (aggregatedLineData st))\<rparr>)"

text \<open>
  The \<open>try\<close> block of the effect.  The \<open>catch\<close> clause only logs, so the effect leaves the
  state that the block has reached, whether it threw or not: \<open>liveTick\<close>.
\<close>

definition liveTickTry ::
  "linePoint seriesUpdate \<Rightarrow> candle seriesUpdate \<Rightarrow> (rat list \<Rightarrow> nat \<Rightarrow> rat option list)
     \<Rightarrow> rat \<Rightarrow> quote \<Rightarrow> stmt" where
  "liveTickTry lineUpd candleUpd ema tf q =
     (let b = bucketTime (q_t q) tf in
      andThen (pushTick q)
     (andThen (updateBid lineUpd b (q_bid q))
     (andThen (updateAsk lineUpd b (q_ask q))
     (andThen (updateMid lineUpd b (midPrice q))
     (andThen (updateCandlestick candleUpd b (midPrice q))
              (updateEMAs lineUpd ema))))))"

definition liveTick ::
  "linePoint seriesUpdate \<Rightarrow> candle seriesUpdate \<Rightarrow> (rat list \<Rightarrow> nat \<Rightarrow> rat option list)
     \<Rightarrow> rat \<Rightarrow> chartState \<Rightarrow> quote \<Rightarrow> chartState" where
  "liveTick lineUpd candleUpd ema tf st q = fst (liveTickTry lineUpd candleUpd ema tf q st)"

definition replay ::
  "linePoint seriesUpdate \<Rightarrow> candle seriesUpdate \<Rightarrow> (rat list \<Rightarrow> nat \<Rightarrow> rat option list)
     \<Rightarrow> rat \<Rightarrow> quote list \<Rightarrow> chartState" where
  "replay lineUpd candleUpd ema tf qs = foldl (liveTick lineUpd candleUpd ema tf) emptyState qs"

text \<open>No run of the effect on the quotes \<open>qs\<close>, from the state \<open>st\<close> on, ends in the
  \<open>catch\<close> clause.\<close>

fun noThrow ::
  "linePoint seriesUpdate \<Rightarrow> candle seriesUpdate \<Rightarrow> (rat list \<Rightarrow> nat \<Rightarrow> rat option list)
     \<Rightarrow> rat \<Rightarrow> chartState \<Rightarrow> quote list \<Rightarrow> bool" where
  "noThrow lineUpd candleUpd ema tf st [] = True"
| "noThrow lineUpd candleUpd ema tf st (q # qs) =
     (\<not> snd (liveTickTry lineUpd candleUpd ema tf q st)
      \<and> noThrow lineUpd candleUpd ema tf (liveTick lineUpd candleUpd ema tf st q) qs)"

text \<open>
  The behaviour of \<open>series.update\<close> that the documentation of the charting library
  describes: a point older than the last point of the series is refused with an
  exception, a point at the time of the last point replaces it, any other point is
  appended.
\<close>

definition chartUpdate :: "('p \<Rightarrow> jsnum) \<Rightarrow> 'p seriesUpdate" where
  "chartUpdate timeOf s p =
     (if s = [] then Some [p]
      else if jsLess (timeOf p) (timeOf (last s)) then None
      else if \<not> strictNeq (timeOf p) (timeOf (last s)) then Some (butlast s @ [p])
      else Some (s @ [p]))"

text \<open>The array that \<open>updateLineSeries\<close> and \<open>updateCandles\<close> leave, whatever the series
  does.\<close>

definition lineWrite :: "jsnum \<Rightarrow> linePoint list \<Rightarrow> rat \<Rightarrow> linePoint list" where
  "lineWrite b data v = fst (updateLineSeries (\<lambda>s p. None) b [] data v)"

definition candleWrite :: "jsnum \<Rightarrow> candle list \<Rightarrow> rat \<Rightarrow> candle list" where
  "candleWrite b candleData m = fst (updateCandles (\<lambda>s p. None) b [] candleData m)"

subsection \<open>Invariants of the full-mode loops\<close>

text \<open>Before the first tick no point has been pushed.\<close>

definition lineInv :: "lineAcc \<Rightarrow> bool" where
  "lineInv a = (la_current a = None \<longrightarrow> la_bidData a = [] \<and> la_askData a = [] \<and> la_midData a = [])"

definition candleInv :: "candleAcc \<Rightarrow> bool" where
  "candleInv a = (ca_current a = None \<longrightarrow> ca_candles a = [])"

text \<open>The invariant of a candle.\<close>

definition candleOK :: "candle \<Rightarrow> bool" where
  "candleOK c = (c_low c \<le> min (c_open c) (c_close c) \<and> max (c_open c) (c_close c) \<le> c_high c)"


section \<open>Example inputs\<close>

text \<open>
  The tick buffer of the specification's example: version 1, two rows, initial timestamp
  1700000000000000; row 0 has delta 0, bid 150000, ask 150200, sizes 100 and 100; row 1
  has delta 500000, bid 150100, ask 150300, sizes 50 and 50.
\<close>

definition exampleTickBuffer :: "byte list" where
  "exampleTickBuffer =
    [84, 73, 67, 75, 1, 2, 0, 0, 0, 0, 64, 30, 24, 36, 10, 6, 0, 0, 0, 0, 0, 0, 0,
     0, 0, 240, 73, 2, 0, 184, 74, 2, 0, 100, 0, 0, 0, 100, 0, 0, 0, 32, 161, 7, 0,
     0, 0, 0, 0, 84, 74, 2, 0, 28, 75, 2, 0, 50, 0, 0, 0, 50, 0, 0, 0]"

text \<open>The same buffer with delta 500000 in row 0 as well.\<close>

definition sameDeltaBuffer :: "byte list" where
  "sameDeltaBuffer =
    [84, 73, 67, 75, 1, 2, 0, 0, 0, 0, 64, 30, 24, 36, 10, 6, 0, 32, 161, 7, 0, 0,
     0, 0, 0, 240, 73, 2, 0, 184, 74, 2, 0, 100, 0, 0, 0, 100, 0, 0, 0, 32, 161, 7,
     0, 0, 0, 0, 0, 84, 74, 2, 0, 28, 75, 2, 0, 50, 0, 0, 0, 50, 0, 0, 0]"

text \<open>
  A level-2 buffer: initial timestamp 1700000000000, the mapping string \<open>0:NSDQ\<close>, and
  two rows: delta-time 5, delta-price 123456, size 300, bid, exchange 0; delta-time 7,
  delta-price -441, size 200, ask, exchange 1.
\<close>

definition exampleL2Buffer :: "byte list" where
  "exampleL2Buffer =
    [0, 104, 229, 207, 139, 1, 0, 0, 6, 0, 0, 0, 48, 58, 78, 83, 68, 81, 5, 0, 0, 0,
     64, 226, 1, 0, 44, 1, 0, 0, 0, 0, 7, 0, 0, 0, 71, 254, 255, 255, 200, 0, 0, 0,
     1, 1]"

definition exampleExchangeMap :: "byte list \<Rightarrow> nat \<rightharpoonup> string" where
  "exampleExchangeMap bs = (if bs = [48, 58, 78, 83, 68, 81] then [0 \<mapsto> ''NSDQ''] else Map.empty)"

text \<open>Four quotes, three in the first minute and one in the second.\<close>

definition exampleQuotes :: "quote list" where
  "exampleQuotes = [\<lparr>q_t = 0, q_bid = 10, q_ask = 12\<rparr>, \<lparr>q_t = 1, q_bid = 8, q_ask = 10\<rparr>,
                    \<lparr>q_t = 2, q_bid = 9, q_ask = 11\<rparr>, \<lparr>q_t = 61, q_bid = 9, q_ask = 13\<rparr>]"


text \<open>Three quotes whose second one is older than the first.\<close>

definition backQuotes :: "quote list" where
  "backQuotes = [\<lparr>q_t = 61, q_bid = 10, q_ask = 12\<rparr>, \<lparr>q_t = 0, q_bid = 8, q_ask = 10\<rparr>,
                 \<lparr>q_t = 62, q_bid = 9, q_ask = 11\<rparr>]"

section \<open>Rounding to binary64\<close>

lemma ilog2_bounds:
  assumes "0 < x"
  shows "2 powi (ilog2 x) \<le> x" and "x < 2 powi (ilog2 x + 1)"
proof -
  obtain p q where pq: "quotient_of x = (p, q)" by (cases "quotient_of x")
  then have q: "0 < q" and x: "x = of_int p / of_int q"
    by (rule quotient_of_denom_pos, rule quotient_of_div)
  from assms x q have p: "0 < p" by (simp add: zero_less_divide_iff)
  define d where "d = bitlen p - bitlen q"
  have il: "ilog2 x = (if 2 powi d \<le> x then d else d - 1)"
    by (simp add: ilog2_def pq d_def Let_def)
  have bp: "1 \<le> bitlen p" "1 \<le> bitlen q"
    using p q bitlen_eq_zero_iff [of p] bitlen_eq_zero_iff [of q] bitlen_nonneg [of p] bitlen_nonneg [of q]
    by linarith+
  have P: "(2::rat) powi (bitlen p - 1) \<le> of_int p" "of_int p < (2::rat) powi (bitlen p)"
  proof -
    from bitlen_bounds [OF p] have "2 ^ nat (bitlen p - 1) \<le> p" "p < 2 ^ nat (bitlen p)" by auto
    then have "(of_int (2 ^ nat (bitlen p - 1)) :: rat) \<le> of_int p" "(of_int p :: rat) < of_int (2 ^ nat (bitlen p))"
      by (simp_all only: of_int_le_iff of_int_less_iff)
    then show "(2::rat) powi (bitlen p - 1) \<le> of_int p" "of_int p < (2::rat) powi (bitlen p)"
      using bp by (simp_all add: power_int_def)
  qed
  have Q: "(2::rat) powi (bitlen q - 1) \<le> of_int q" "of_int q < (2::rat) powi (bitlen q)"
  proof -
    from bitlen_bounds [OF q] have "2 ^ nat (bitlen q - 1) \<le> q" "q < 2 ^ nat (bitlen q)" by auto
    then have "(of_int (2 ^ nat (bitlen q - 1)) :: rat) \<le> of_int q" "(of_int q :: rat) < of_int (2 ^ nat (bitlen q))"
      by (simp_all only: of_int_le_iff of_int_less_iff)
    then show "(2::rat) powi (bitlen q - 1) \<le> of_int q" "of_int q < (2::rat) powi (bitlen q)"
      using bp by (simp_all add: power_int_def)
  qed
  have qpos: "(0::rat) < of_int q" using q by simp
  \<comment> \<open>lower: 2^(d-1) * q < 2^(bitlen p - 1) <= p\<close>
  have "(2::rat) powi (d - 1) * of_int q < 2 powi (d - 1) * 2 powi (bitlen q)"
    using Q(2) by (simp add: mult_strict_left_mono)
  also have "\<dots> = 2 powi (bitlen p - 1)"
    by (simp add: d_def flip: power_int_add)
  also have "\<dots> \<le> of_int p" by (rule P(1))
  finally have low: "(2::rat) powi (d - 1) < x"
    using qpos by (simp add: x pos_less_divide_eq)
  have "of_int p < (2::rat) powi (bitlen p)" by (rule P(2))
  also have "\<dots> = 2 powi (d + 1) * 2 powi (bitlen q - 1)"
    by (simp add: d_def flip: power_int_add)
  also have "\<dots> \<le> 2 powi (d + 1) * of_int q"
    using Q(1) by (simp add: mult_left_mono)
  finally have up: "x < (2::rat) powi (d + 1)"
    using qpos by (simp add: x pos_divide_less_eq)
  show "2 powi (ilog2 x) \<le> x" using low by (simp add: il)
  show "x < 2 powi (ilog2 x + 1)" using up by (auto simp: il not_le)
qed

lemma rne_error: "\<bar>of_int (rne y) - y\<bar> \<le> 1 / 2"
proof -
  have "of_int \<lfloor>y\<rfloor> \<le> y" "y < of_int \<lfloor>y\<rfloor> + 1" by linarith+
  then show ?thesis by (auto simp: rne_def Let_def abs_le_iff)
qed

lemma rne_of_int: "rne (of_int n) = n"
  by (simp add: rne_def)

lemma round64_error: "\<bar>round64 x - x\<bar> \<le> \<bar>x\<bar> / 2 ^ 53"
proof (cases "x = 0")
  case True
  then show ?thesis by (simp add: round64_def)
next
  case False
  define e where "e = ilog2 \<bar>x\<bar>"
  define u :: rat where "u = 2 powi (e - 52)"
  have u: "0 < u" by (simp add: u_def)
  have r: "round64 x = of_int (rne (x / u)) * u"
    using False by (simp add: round64_def e_def u_def Let_def)
  have "round64 x - x = (of_int (rne (x / u)) - x / u) * u"
    using u by (simp add: r left_diff_distrib)
  then have "\<bar>round64 x - x\<bar> = \<bar>of_int (rne (x / u)) - x / u\<bar> * u"
    using u by (simp add: abs_mult)
  also have "\<dots> \<le> 1 / 2 * u"
    using rne_error [of "x / u"] u by (intro mult_right_mono) simp_all
  also have "\<dots> = 2 powi e / 2 ^ 53"
    by (simp add: u_def power_int_diff)
  also have "\<dots> \<le> \<bar>x\<bar> / 2 ^ 53"
    using ilog2_bounds(1) [of "\<bar>x\<bar>"] False by (simp add: e_def divide_right_mono)
  finally show ?thesis .
qed

lemma round64_of_int:
  assumes "\<bar>n\<bar> \<le> 2 ^ 53"
  shows "round64 (of_int n) = of_int n"
proof (cases "n = 0")
  case True
  then show ?thesis by (simp add: round64_def)
next
  case False
  define e where "e = ilog2 \<bar>of_int n\<bar>"
  have pos: "(0::rat) < \<bar>of_int n\<bar>" using False by simp
  have "(2::rat) powi e \<le> \<bar>of_int n\<bar>" unfolding e_def by (rule ilog2_bounds(1) [OF pos])
  also have "\<dots> \<le> 2 powi 53"
  proof -
    have "(of_int \<bar>n\<bar> :: rat) \<le> of_int (2 ^ 53)" using assms by (simp only: of_int_le_iff)
    then show ?thesis by simp
  qed
  finally have "(2::rat) powi e \<le> 2 powi 53" .
  then have e53: "e \<le> 53" by (rule power_int_le_imp_le_exp [rotated]) simp_all
  have r: "round64 (of_int n) = of_int (rne (of_int n / 2 powi (e - 52))) * 2 powi (e - 52)"
    using False by (simp add: round64_def e_def Let_def)
  show ?thesis
  proof (cases "e \<le> 52")
    case True
    have "(of_int n :: rat) / 2 powi (e - 52) = of_int n * 2 powi (52 - e)"
      by (simp add: power_int_diff)
    also have "\<dots> = of_int (n * 2 ^ nat (52 - e))"
      using True by (simp add: power_int_def)
    finally have "rne (of_int n / 2 powi (e - 52)) = n * 2 ^ nat (52 - e)"
      by (simp only: rne_of_int)
    then have "round64 (of_int n) = of_int n * (2 powi (52 - e) * 2 powi (e - 52))"
      using True by (simp add: r power_int_def)
    also have "2 powi (52 - e) * 2 powi (e - 52) = (1::rat)"
      by (simp flip: power_int_add)
    finally show ?thesis by simp
  next
    case False
    with e53 have e: "e = 53" by simp
    have "(2::rat) ^ 53 \<le> \<bar>of_int n\<bar>"
      using \<open>(2::rat) powi e \<le> \<bar>of_int n\<bar>\<close> by (simp add: e)
    then have "(of_int (2 ^ 53) :: rat) \<le> of_int \<bar>n\<bar>" by simp
    then have "2 ^ 53 \<le> \<bar>n\<bar>" by (simp only: of_int_le_iff)
    with assms have "\<bar>n\<bar> = 2 ^ 53" by simp
    then have "n = 2 ^ 53 \<or> n = - (2 ^ 53)" by linarith
    then show ?thesis
      by (auto simp: r e rne_def)
  qed
qed

lemma round64_nonneg: "0 \<le> x \<Longrightarrow> 0 \<le> round64 x"
proof -
  assume x: "0 \<le> x"
  have "\<bar>round64 x - x\<bar> \<le> x / 2 ^ 53" using round64_error [of x] x by simp
  then have "x - x / 2 ^ 53 \<le> round64 x" by linarith
  moreover have "x / 2 ^ 53 \<le> x" using x by (simp add: field_simps)
  ultimately show ?thesis by linarith
qed

lemma round64_upper: "0 \<le> x \<Longrightarrow> round64 x \<le> x * (1 + 1 / 2 ^ 53)"
proof -
  assume x: "0 \<le> x"
  have "\<bar>round64 x - x\<bar> \<le> x / 2 ^ 53" using round64_error [of x] x by simp
  then have "round64 x \<le> x + x / 2 ^ 53" by linarith
  also have "\<dots> = x * (1 + 1 / 2 ^ 53)" by (simp add: algebra_simps)
  finally show ?thesis .
qed

lemma floor_round64_div_1000:
  assumes "\<bar>ms\<bar> \<le> 8640000000000000"
  shows "\<lfloor>round64 (of_int ms / 1000)\<rfloor> = ms div 1000"
proof (cases "ms mod 1000 = 0")
  case True
  then have x: "(of_int ms :: rat) / 1000 = of_int (ms div 1000)"
    by (metis (no_types) of_int_numeral dvd_div_mult_self mod_eq_0_iff_dvd nonzero_mult_div_cancel_right of_int_mult of_int_eq_0_iff zero_neq_numeral)
  have "\<bar>ms div 1000\<bar> \<le> 2 ^ 53" using assms by (simp add: abs_le_iff) linarith
  then show ?thesis by (simp add: x round64_of_int)
next
  case False
  define q where "q = ms div 1000"
  define r where "r = ms mod 1000"
  have "0 \<le> r" "r < 1000" by (simp_all add: r_def)
  then have r: "1 \<le> r" "r \<le> 999" using False by (simp_all add: r_def)
  have ms: "ms = q * 1000 + r" by (simp add: q_def r_def)
  define x :: rat where "x = of_int ms / 1000"
  have x: "x = of_int q + of_int r / 1000" by (simp add: x_def ms)
  have "(of_int \<bar>ms\<bar> :: rat) \<le> of_int 8640000000000000" using assms by (simp only: of_int_le_iff)
  then have ax: "\<bar>x\<bar> \<le> 8640000000000" by (simp add: x_def)
  have "\<bar>round64 x - x\<bar> \<le> \<bar>x\<bar> / 2 ^ 53" by (rule round64_error)
  also have "\<dots> \<le> 8640000000000 / 2 ^ 53" using ax by (simp add: divide_right_mono)
  also have "\<dots> < 1 / 1000" by simp
  finally have err: "\<bar>round64 x - x\<bar> < 1 / 1000" .
  have lo: "of_int q + 1 / 1000 \<le> x" using r(1) by (simp add: x)
  have hi: "x \<le> of_int q + 999 / 1000" using r(2) by (simp add: x)
  have "\<lfloor>round64 x\<rfloor> = q"
  proof (rule floor_unique)
    show "of_int q \<le> round64 x" using err lo by linarith
    show "round64 x < of_int q + 1" using err hi by linarith
  qed
  then show ?thesis by (simp add: x_def q_def)
qed

section \<open>Decimal strings\<close>

lemma digit_cases: "0 \<le> d \<Longrightarrow> d < 10 \<Longrightarrow> d \<in> {0, 1, 2, 3, 4, 5, 6, 7, 8, 9::int}"
  by simp presburger

lemma digitChar_isDigit: "0 \<le> d \<Longrightarrow> d < 10 \<Longrightarrow> isDigit (digitChar d)"
  by (drule (1) digit_cases) (auto simp: isDigit_def digitChar_def)

lemma digitVal_digitChar: "0 \<le> d \<Longrightarrow> d < 10 \<Longrightarrow> digitVal (digitChar d) = d"
  by (drule (1) digit_cases) (auto simp: digitVal_def digitChar_def)

lemma digits_isDigit: "0 \<le> n \<Longrightarrow> list_all isDigit (digits n)"
proof (induction n rule: digits.induct)
  case (1 n)
  show ?case
  proof (cases "n < 10")
    case True
    then show ?thesis using "1.prems" by (subst digits.simps) (simp add: digitChar_isDigit)
  next
    case False
    then have "list_all isDigit (digits (n div 10))" using "1.IH" "1.prems" by simp
    then show ?thesis using False
      by (subst digits.simps) (simp add: digitChar_isDigit)
  qed
qed

lemma intOfDigits_snoc: "intOfDigits (s @ [c]) = 10 * intOfDigits s + digitVal c"
  by (simp add: intOfDigits_def)

lemma intOfDigits_digits: "0 \<le> n \<Longrightarrow> intOfDigits (digits n) = n"
proof (induction n rule: digits.induct)
  case (1 n)
  show ?case
  proof (cases "n < 10")
    case True
    then show ?thesis using "1.prems"
      by (subst digits.simps) (simp add: intOfDigits_def digitVal_digitChar)
  next
    case False
    then have "intOfDigits (digits (n div 10)) = n div 10" using "1.IH" "1.prems" by simp
    then show ?thesis using False
      by (subst digits.simps) (simp add: intOfDigits_snoc digitVal_digitChar)
  qed
qed

lemma intOfDigits_zeros: "intOfDigits (replicate z (CHR ''0'') @ s) = intOfDigits s"
proof -
  have "foldl (\<lambda>a c. 10 * a + digitVal c) 0 (replicate z (CHR ''0'')) = 0"
    by (induction z) (simp_all add: digitVal_def)
  then show ?thesis by (simp add: intOfDigits_def)
qed

lemma isDigit_not_point: "isDigit c \<Longrightarrow> c \<noteq> CHR ''.''"
  by (auto simp: isDigit_def)

lemma isDigit_not_minus: "isDigit c \<Longrightarrow> c \<noteq> CHR ''-''"
  by (auto simp: isDigit_def)

lemma toFixed_pos:
  "0 < f \<Longrightarrow> toFixed f x =
     (let n = \<lfloor>\<bar>x\<bar> * 10 ^ f + 1 / 2\<rfloor>;
          m = digits n;
          m0 = (if length m \<le> f then replicate (f + 1 - length m) (CHR ''0'') @ m else m);
          k = length m0
      in (if x < 0 then ''-'' else []) @ take (k - f) m0 @ ''.'' @ drop (k - f) m0)"
  by (simp add: toFixed_def Let_def)

lemma split_point:
  assumes "f < length p"
  shows "take (length p - f) p \<noteq> []" and "length (drop (length p - f) p) = f"
  using assms by auto

text \<open>The shape of the result of toFixed with at least one fraction digit.\<close>

lemma toFixed_shape:
  assumes "0 < f"
  shows "\<exists>ip fp. toFixed f x = (if x < 0 then ''-'' else []) @ ip @ ''.'' @ fp
           \<and> ip \<noteq> [] \<and> list_all isDigit ip \<and> length fp = f \<and> list_all isDigit fp
           \<and> intOfDigits (ip @ fp) = \<lfloor>\<bar>x\<bar> * 10 ^ f + 1 / 2\<rfloor>"
proof -
  let ?n = "\<lfloor>\<bar>x\<bar> * 10 ^ f + 1 / 2\<rfloor>"
  let ?m = "digits ?n"
  let ?padded = "if length ?m \<le> f then replicate (f + 1 - length ?m) (CHR ''0'') @ ?m else ?m"
  have n0: "0 \<le> ?n" by simp
  have md: "list_all isDigit ?m" by (rule digits_isDigit [OF n0])
  have zd: "isDigit (CHR ''0'')" by (simp add: isDigit_def)
  have pad: "list_all isDigit (replicate (f + 1 - length ?m) (CHR ''0'') @ ?m)"
    using md zd by (auto simp: list_all_iff)
  have m0d: "list_all isDigit ?padded"
  proof (cases "length ?m \<le> f")
    case True
    show ?thesis by (simp only: True if_True) (rule pad)
  next
    case False
    show ?thesis by (simp only: False if_False) (rule md)
  qed
  have len: "f < length ?padded" by simp
  have val: "intOfDigits ?padded = ?n"
    by (simp add: intOfDigits_zeros intOfDigits_digits [OF n0])
  let ?ip = "take (length ?padded - f) ?padded" and ?fp = "drop (length ?padded - f) ?padded"
  have "toFixed f x = (if x < 0 then ''-'' else []) @ ?ip @ ''.'' @ ?fp"
    unfolding toFixed_pos [OF assms] Let_def ..
  moreover have "?ip \<noteq> []" by (rule split_point(1) [OF len])
  moreover have "list_all isDigit ?ip"
    unfolding list_all_iff using m0d [unfolded list_all_iff] by (blast dest: in_set_takeD)
  moreover have "list_all isDigit ?fp"
    unfolding list_all_iff using m0d [unfolded list_all_iff] by (blast dest: in_set_dropD)
  moreover have "length ?fp = f" by (rule split_point(2) [OF len])
  moreover have "intOfDigits (?ip @ ?fp) = ?n" unfolding append_take_drop_id by (rule val)
  ultimately show ?thesis by blast
qed

lemma takeWhile_digits:
  "list_all isDigit ip \<Longrightarrow> takeWhile (\<lambda>c. c \<noteq> CHR ''.'') (ip @ CHR ''.'' # fp) = ip"
  by (induction ip) (auto dest: isDigit_not_point)

lemma dropWhile_digits:
  "list_all isDigit ip \<Longrightarrow> dropWhile (\<lambda>c. c \<noteq> CHR ''.'') (ip @ CHR ''.'' # fp) = CHR ''.'' # fp"
  by (induction ip) (auto dest: isDigit_not_point)

lemma fixedDecimal_toFixed: "0 < f \<Longrightarrow> fixedDecimal f (toFixed f x)"
proof -
  assume f: "0 < f"
  from toFixed_shape [OF f, of x] obtain ip fp where
    s: "toFixed f x = (if x < 0 then ''-'' else []) @ ip @ ''.'' @ fp"
    and ip: "ip \<noteq> []" "list_all isDigit ip" and fp: "length fp = f" "list_all isDigit fp"
    by blast
  have hd: "hd ip \<noteq> CHR ''-''" using ip by (cases ip) (auto dest: isDigit_not_minus)
  have body: "(if toFixed f x \<noteq> [] \<and> hd (toFixed f x) = CHR ''-'' then tl (toFixed f x) else toFixed f x)
               = ip @ CHR ''.'' # fp"
    using ip hd by (cases "x < 0") (simp_all add: s)
  show ?thesis
    unfolding fixedDecimal_def Let_def body
    using ip fp by (simp add: takeWhile_digits dropWhile_digits)
qed

lemma parseFloat_toFixed:
  assumes "0 < f"
  shows "parseFloat (toFixed f x) =
     (if x < 0 then - 1 else 1) * of_int \<lfloor>\<bar>x\<bar> * 10 ^ f + 1 / 2\<rfloor> / 10 ^ f"
proof -
  from toFixed_shape [OF assms, of x] obtain ip fp where
    s: "toFixed f x = (if x < 0 then ''-'' else []) @ ip @ ''.'' @ fp"
    and ip: "ip \<noteq> []" "list_all isDigit ip" and fp: "length fp = f" "list_all isDigit fp"
    and v: "intOfDigits (ip @ fp) = \<lfloor>\<bar>x\<bar> * 10 ^ f + 1 / 2\<rfloor>"
    by blast
  have hd: "hd ip \<noteq> CHR ''-''" using ip by (cases ip) (auto dest: isDigit_not_minus)
  have neg: "(toFixed f x \<noteq> [] \<and> hd (toFixed f x) = CHR ''-'') = (x < 0)"
    using ip hd by (cases "x < 0") (simp_all add: s)
  have body: "(if x < 0 then tl (toFixed f x) else toFixed f x) = ip @ CHR ''.'' # fp"
    by (simp add: s)
  show ?thesis
    unfolding parseFloat_def Let_def neg body
    using ip fp v by (simp add: takeWhile_digits dropWhile_digits)
qed

section \<open>The tick decoder\<close>

lemma bindE_Inr [simp]: "bindE (Inr x) f = f x"
  by (simp add: bindE_def)

lemma bindE_Inl [simp]: "bindE (Inl e) f = Inl e"
  by (simp add: bindE_def)

lemma bindE_cong [cong]: "m = m' \<Longrightarrow> bindE m f = bindE m' f"
  by simp

lemmas read_defs =
  readBytes_def getUint8_def getUint32_def getInt32_def getBigUint64_def getBigInt64_def

lemma toISOString_cases:
  "toISOString v = (if \<bar>v\<bar> \<le> 8640000000000000 then Inr (trunc v) else Inl RangeError)"
  by (simp add: toISOString_def)

text \<open>What the decoder makes of the row at index \<open>k\<close> when it lies within the buffer.\<close>

lemma parseRow_fits:
  assumes "17 + k * 24 + 24 \<le> length buf"
  shows "parseRow buf init (17 + k * 24) =
     (if \<bar>usToMs (init + rowDeltaTimeUs buf k)\<bar> \<le> 8640000000000000
      then Inr \<lparr>timestamp = trunc (usToMs (init + rowDeltaTimeUs buf k)),
                time = trunc (usToMs (init + rowDeltaTimeUs buf k)),
                priceBid = toFixed 5 (round64 (of_int (rowField32 buf k 8) / PRICE_SCALE)),
                priceAsk = toFixed 5 (round64 (of_int (rowField32 buf k 12) / PRICE_SCALE)),
                sizeBid = toFixed 2 (round64 (of_int (rowField32 buf k 16) / SIZE_SCALE)),
                sizeAsk = toFixed 2 (round64 (of_int (rowField32 buf k 20) / SIZE_SCALE)),
                bid_price = toFixed 5 (round64 (of_int (rowField32 buf k 8) / PRICE_SCALE)),
                ask_price = toFixed 5 (round64 (of_int (rowField32 buf k 12) / PRICE_SCALE)),
                bid_size = toFixed 2 (round64 (of_int (rowField32 buf k 16) / SIZE_SCALE)),
                ask_size = toFixed 2 (round64 (of_int (rowField32 buf k 20) / SIZE_SCALE))\<rparr>
      else Inl RangeError)"
  using assms
  by (simp add: parseRow_def read_defs rowDeltaTimeUs_def rowField32_def toISOString_cases Let_def)

lemma bindE_RangeError:
  "m = Inl RangeError \<or> (\<exists>v. m = Inr v) \<Longrightarrow> (\<And>v. f v = Inl RangeError)
   \<Longrightarrow> bindE m f = Inl RangeError"
  by auto

lemma get_cases:
  "getInt32 buf off = Inl RangeError \<or> (\<exists>v. getInt32 buf off = Inr v)"
  "getBigInt64 buf off = Inl RangeError \<or> (\<exists>v. getBigInt64 buf off = Inr v)"
  "getUint8 buf off = Inl RangeError \<or> (\<exists>v. getUint8 buf off = Inr v)"
  by (simp_all add: read_defs)

lemma parseRow_short:
  assumes "length buf < off + 24"
  shows "parseRow buf init off = Inl RangeError"
proof -
  have "\<not> off + 20 + 4 \<le> length buf" using assms by simp
  then have g: "getInt32 buf (off + 20) = Inl RangeError" by (simp add: read_defs)
  show ?thesis
    unfolding parseRow_def
    by (rule bindE_RangeError, rule get_cases, rule bindE_RangeError, rule get_cases,
        rule bindE_RangeError, rule get_cases, rule bindE_RangeError, rule get_cases,
        simp add: g)
qed

lemma parseRow_error: "parseRow buf init (17 + k * 24) = Inl e \<Longrightarrow> e = RangeError"
proof (cases "17 + k * 24 + 24 \<le> length buf")
  case True
  assume "parseRow buf init (17 + k * 24) = Inl e"
  then show ?thesis by (simp add: parseRow_fits [OF True] split: if_splits)
next
  case False
  assume "parseRow buf init (17 + k * 24) = Inl e"
  then show ?thesis using parseRow_short [of buf "17 + k * 24" init] False by simp
qed

lemma parseRow_Inr_fits: "parseRow buf init (17 + k * 24) = Inr t \<Longrightarrow> 17 + k * 24 + 24 \<le> length buf"
  using parseRow_short [of buf "17 + k * 24" init] by (cases "17 + k * 24 + 24 \<le> length buf") simp_all

lemma parseRows_short:
  "i < numRows \<Longrightarrow> length buf < 17 + 24 * numRows \<Longrightarrow>
   parseRows buf init numRows i data = Inl RangeError"
proof (induction buf init numRows i data rule: parseRows.induct)
  case (1 buf init numRows i data)
  show ?case
  proof (cases "parseRow buf init (17 + i * 24)")
    case (Inl e)
    then show ?thesis using "1.prems" parseRow_error [OF Inl]
      by (subst parseRows.simps) simp
  next
    case (Inr t)
    from parseRow_Inr_fits [OF Inr] "1.prems" have "i + 1 < numRows" by simp
    from "1.IH" [OF "1.prems"(1) Inr this "1.prems"(2)]
    show ?thesis using "1.prems" Inr by (subst parseRows.simps) simp
  qed
qed

lemma parseRows_valid:
  "17 + 24 * numRows \<le> length buf \<Longrightarrow>
   \<forall>k. i \<le> k \<and> k < numRows \<longrightarrow> \<bar>usToMs (init + rowDeltaTimeUs buf k)\<bar> \<le> 8640000000000000 \<Longrightarrow>
   \<exists>ticks. parseRows buf init numRows i data = Inr (data @ ticks)
     \<and> length ticks = numRows - i
     \<and> (\<forall>j < numRows - i. Inr (ticks ! j) = parseRow buf init (17 + (i + j) * 24))"
proof (induction buf init numRows i data rule: parseRows.induct)
  case (1 buf init numRows i data)
  show ?case
  proof (cases "i < numRows")
    case False
    then show ?thesis by (subst parseRows.simps) simp
  next
    case True
    then have fits: "17 + i * 24 + 24 \<le> length buf" using "1.prems"(1) by simp
    have ok: "\<bar>usToMs (init + rowDeltaTimeUs buf i)\<bar> \<le> 8640000000000000"
      using "1.prems"(2) True by simp
    obtain t where t: "parseRow buf init (17 + i * 24) = Inr t"
      using parseRow_fits [OF fits, of init] ok by simp
    have "\<forall>k. i + 1 \<le> k \<and> k < numRows \<longrightarrow> \<bar>usToMs (init + rowDeltaTimeUs buf k)\<bar> \<le> 8640000000000000"
      using "1.prems"(2) by simp
    from "1.IH" [OF True t "1.prems"(1) this]
    obtain ticks where r: "parseRows buf init numRows (i + 1) (data @ [t]) = Inr ((data @ [t]) @ ticks)"
      and l: "length ticks = numRows - (i + 1)"
      and n: "\<forall>j < numRows - (i + 1). Inr (ticks ! j) = parseRow buf init (17 + (i + 1 + j) * 24)"
      by blast
    have "parseRows buf init numRows i data = Inr (data @ (t # ticks))"
      using True t r by (subst parseRows.simps) simp
    moreover have "length (t # ticks) = numRows - i" using l True by simp
    moreover have "\<forall>j < numRows - i. Inr ((t # ticks) ! j) = parseRow buf init (17 + (i + j) * 24)"
    proof (intro allI impI)
      fix j assume j: "j < numRows - i"
      show "Inr ((t # ticks) ! j) = parseRow buf init (17 + (i + j) * 24)"
      proof (cases j)
        case 0
        then show ?thesis by (simp add: t)
      next
        case (Suc j')
        then have "j' < numRows - (i + 1)" using j by simp
        with n have "Inr (ticks ! j') = parseRow buf init (17 + (i + 1 + j') * 24)" by blast
        then show ?thesis by (simp add: Suc)
      qed
    qed
    ultimately show ?thesis by blast
  qed
qed

lemma parseBinaryData_header:
  "parseBinaryData buf =
     (if length buf < 17 then Inl RangeError
      else if take 4 buf \<noteq> magicTICK then Inl InvalidFormat
      else parseRows buf (headerInitialTimestampUs buf) (headerNumRows buf) 0 [])"
  by (simp add: parseBinaryData_def read_defs headerNumRows_def headerInitialTimestampUs_def)

lemma parseBinaryData_valid:
  assumes "validTickBuffer buf"
  shows "\<exists>ticks. parseBinaryData buf = Inr ticks \<and> length ticks = headerNumRows buf
     \<and> (\<forall>k < headerNumRows buf.
           Inr (ticks ! k) = parseRow buf (headerInitialTimestampUs buf) (17 + k * 24))"
proof -
  from assms have m: "take 4 buf = magicTICK" and l: "17 + 24 * headerNumRows buf \<le> length buf"
    and d: "\<forall>k. 0 \<le> k \<and> k < headerNumRows buf \<longrightarrow>
       \<bar>usToMs (headerInitialTimestampUs buf + rowDeltaTimeUs buf k)\<bar> \<le> 8640000000000000"
    by (simp_all add: validTickBuffer_def)
  from parseRows_valid [OF l d, of "[]"] l m show ?thesis
    by (simp add: parseBinaryData_header)
qed

lemma all_less_2: "(\<forall>k<2::nat. P k) = (P 0 \<and> P (Suc 0))"
  by (auto simp: less_Suc_eq numeral_2_eq_2)

lemma example_header:
  "headerNumRows exampleTickBuffer = 2"
  "headerInitialTimestampUs exampleTickBuffer = 1700000000000000"
  "rowDeltaTimeUs exampleTickBuffer 0 = 0"
  "rowDeltaTimeUs exampleTickBuffer (Suc 0) = 500000"
  "take 4 exampleTickBuffer = magicTICK"
  "length exampleTickBuffer = 65"
  by (simp_all add: headerNumRows_def headerInitialTimestampUs_def rowDeltaTimeUs_def
      exampleTickBuffer_def leInt_def toSigned_def magicTICK_def)

lemma usToMs_examples:
  "usToMs 1700000000000000 = 1700000000000"
  "usToMs 1700000000500000 = 1700000000500"
  "usToMs 1700000001000000 = 1700000001000"
  by code_simp+

lemma example_valid: "validTickBuffer exampleTickBuffer"
  by (simp add: validTickBuffer_def example_header all_less_2 usToMs_examples)

text \<open>
  Claim C2, as the code has it.  A valid tick buffer whose header announces \<open>N\<close> rows
  decodes to exactly \<open>N\<close> ticks.  The timestamp of the tick at index \<open>k\<close> is the
  header's initial timestamp plus the delta of row \<open>k\<close> alone, converted from
  microseconds to the milliseconds of the ISO string: every delta is an offset from the
  initial timestamp, and the deltas of the rows before are not added up.
\<close>

theorem tick_decode_count_and_timestamps:
  assumes "validTickBuffer buf"
  shows "\<exists>ticks. parseBinaryData buf = Inr ticks \<and> length ticks = headerNumRows buf
     \<and> (\<forall>k < headerNumRows buf.
           timestamp (ticks ! k) =
             trunc (usToMs (headerInitialTimestampUs buf + rowDeltaTimeUs buf k)))"
proof -
  from parseBinaryData_valid [OF assms] obtain ticks where
    p: "parseBinaryData buf = Inr ticks" and l: "length ticks = headerNumRows buf"
    and r: "\<forall>k < headerNumRows buf.
           Inr (ticks ! k) = parseRow buf (headerInitialTimestampUs buf) (17 + k * 24)"
    by blast
  have "timestamp (ticks ! k) = trunc (usToMs (headerInitialTimestampUs buf + rowDeltaTimeUs buf k))"
    if k: "k < headerNumRows buf" for k
  proof -
    from assms k have fits: "17 + k * 24 + 24 \<le> length buf" by (simp add: validTickBuffer_def)
    from r k have "Inr (ticks ! k) = parseRow buf (headerInitialTimestampUs buf) (17 + k * 24)" by blast
    then show ?thesis
      by (simp add: parseRow_fits [OF fits] split: if_splits)
  qed
  with p l show ?thesis by blast
qed

theorem tick_decode_count_and_timestamps_witness:
  "validTickBuffer exampleTickBuffer \<and>
   (\<exists>ticks. parseBinaryData exampleTickBuffer = Inr ticks \<and> length ticks = 2
      \<and> timestamp (ticks ! 0) = 1700000000000 \<and> timestamp (ticks ! Suc 0) = 1700000000500)"
  using tick_decode_count_and_timestamps [OF example_valid]
  by (simp add: example_valid example_header all_less_2 usToMs_examples trunc_def)

lemma leInt_bounds: "0 \<le> leInt bs \<and> leInt bs < 256 ^ length bs"
proof (induction bs)
  case Nil
  then show ?case by (simp add: leInt_def)
next
  case (Cons b bs)
  have b: "0 \<le> uint b" "uint b < 256" using uint_lt2p [of b] by simp_all
  have e: "leInt (b # bs) = uint b + 256 * leInt bs" by (simp add: leInt_def)
  from Cons b show ?case unfolding e by (simp add: algebra_simps)
qed

lemma toSigned32_bounds:
  assumes "length bs \<le> 4"
  shows "\<bar>toSigned 32 (leInt bs)\<bar> \<le> 2 ^ 31"
proof -
  have "(256::int) ^ length bs \<le> 256 ^ 4" using assms by (intro power_increasing) simp_all
  with leInt_bounds [of bs] have "0 \<le> leInt bs" "leInt bs < 2 ^ 32" by simp_all
  then show ?thesis by (simp add: toSigned_def)
qed

lemma rowField32_bounds: "\<bar>rowField32 buf k off\<bar> \<le> 2 ^ 31"
  unfolding rowField32_def by (rule toSigned32_bounds) simp

text \<open>Dividing a 32-bit integer by a scale, rounding to binary64 and writing the result
  with as many digits as the scale has zeros gives back the integer.\<close>

lemma scaled_roundtrip:
  assumes p: "\<bar>p\<bar> \<le> 2 ^ 31" and f: "0 < f"
  shows "parseFloat (toFixed f (round64 (of_int p / 10 ^ f))) = of_int p / 10 ^ f"
proof -
  define x :: rat where "x = of_int p / 10 ^ f"
  define r where "r = round64 x"
  have ten: "(0::rat) < 10 ^ f" by simp
  have ap: "\<bar>x\<bar> * 10 ^ f = of_int \<bar>p\<bar>" by (simp add: x_def abs_divide)
  have "(of_int \<bar>p\<bar> :: rat) \<le> of_int (2 ^ 31)" using p by (simp only: of_int_le_iff)
  then have ap31: "\<bar>x\<bar> * 10 ^ f \<le> 2 ^ 31" by (simp add: ap)
  have "\<bar>r - x\<bar> * 10 ^ f \<le> \<bar>x\<bar> / 2 ^ 53 * 10 ^ f"
    unfolding r_def using round64_error [of x] ten by (intro mult_right_mono) simp_all
  also have "\<dots> = \<bar>x\<bar> * 10 ^ f / 2 ^ 53" by simp
  also have "\<dots> \<le> 2 ^ 31 / 2 ^ 53" using ap31 by (intro divide_right_mono) simp_all
  also have "\<dots> < 1 / 4" by simp
  finally have err: "\<bar>r - x\<bar> * 10 ^ f < 1 / 4" .
  have "\<bar>\<bar>r\<bar> - \<bar>x\<bar>\<bar> * 10 ^ f \<le> \<bar>r - x\<bar> * 10 ^ f"
    using ten by (intro mult_right_mono) (simp_all add: abs_triangle_ineq3)
  with err have "\<bar>\<bar>r\<bar> - \<bar>x\<bar>\<bar> * 10 ^ f < 1 / 4" by linarith
  then have "\<bar>\<bar>r\<bar> * 10 ^ f - \<bar>x\<bar> * 10 ^ f\<bar> < 1 / 4"
    using ten by (simp add: left_diff_distrib [symmetric] abs_mult)
  then have close: "\<bar>\<bar>r\<bar> * 10 ^ f - of_int \<bar>p\<bar>\<bar> < 1 / 4" by (simp only: ap)
  have fl: "\<lfloor>\<bar>r\<bar> * 10 ^ f + 1 / 2\<rfloor> = \<bar>p\<bar>"
  proof (rule floor_unique)
    show "of_int \<bar>p\<bar> \<le> \<bar>r\<bar> * 10 ^ f + 1 / 2" using close by linarith
    show "\<bar>r\<bar> * 10 ^ f + 1 / 2 < of_int \<bar>p\<bar> + 1" using close by linarith
  qed
  have sign: "(r < 0) = (p < 0)"
  proof (cases "p < 0")
    case True
    then have "of_int \<bar>p\<bar> \<ge> (1::rat)" by simp
    then have "\<bar>x\<bar> * 10 ^ f \<ge> 1" by (simp only: ap)
    moreover have "x < 0" using True by (simp add: x_def divide_neg_pos)
    ultimately have "x * 10 ^ f \<le> - 1" by simp
    moreover have "(r - x) * 10 ^ f \<le> \<bar>r - x\<bar> * 10 ^ f" using ten by (intro mult_right_mono) simp_all
    ultimately have "r * 10 ^ f < 0" using err by (simp add: left_diff_distrib) 
    then have "r < 0" using ten by (simp add: mult_less_0_iff)
    with True show ?thesis by simp
  next
    case False
    then have "0 \<le> x" by (simp add: x_def)
    then have "0 \<le> r" unfolding r_def by (rule round64_nonneg)
    with False show ?thesis by simp
  qed
  have "parseFloat (toFixed f r) = (if r < 0 then - 1 else 1) * of_int \<lfloor>\<bar>r\<bar> * 10 ^ f + 1 / 2\<rfloor> / 10 ^ f"
    by (rule parseFloat_toFixed [OF f])
  also have "\<dots> = (if p < 0 then - 1 else 1) * of_int \<bar>p\<bar> / 10 ^ f"
    by (simp only: fl sign)
  also have "\<dots> = of_int p / 10 ^ f" by simp
  finally show ?thesis by (simp only: r_def x_def)
qed

lemma price_roundtrip:
  "\<bar>p\<bar> \<le> 2 ^ 31 \<Longrightarrow> parseFloat (toFixed 5 (round64 (of_int p / PRICE_SCALE))) = of_int p / 100000"
  using scaled_roundtrip [of p 5] by (simp add: PRICE_SCALE_def)

lemma size_roundtrip:
  "\<bar>p\<bar> \<le> 2 ^ 31 \<Longrightarrow> parseFloat (toFixed 2 (round64 (of_int p / SIZE_SCALE))) = of_int p / 100"
  using scaled_roundtrip [of p 2] by (simp add: SIZE_SCALE_def)

text \<open>
  Claim C9.  In every tick decoded from a valid tick buffer, the bid and ask prices are
  decimal strings with exactly 5 digits after the point and the bid and ask sizes are
  decimal strings with exactly 2; read back as decimals they are the scaled 32-bit
  integers of the row divided by 100000 and by 100; the fields \<open>bid_price\<close>,
  \<open>ask_price\<close>, \<open>bid_size\<close> and \<open>ask_size\<close> repeat the same strings.
\<close>

theorem tick_fields_fixed_format:
  assumes "validTickBuffer buf"
  shows "\<exists>ticks. parseBinaryData buf = Inr ticks \<and> length ticks = headerNumRows buf \<and>
     (\<forall>k < headerNumRows buf.
        fixedDecimal 5 (priceBid (ticks ! k)) \<and> fixedDecimal 5 (priceAsk (ticks ! k)) \<and>
        fixedDecimal 2 (sizeBid (ticks ! k)) \<and> fixedDecimal 2 (sizeAsk (ticks ! k)) \<and>
        parseFloat (priceBid (ticks ! k)) = of_int (rowField32 buf k 8) / 100000 \<and>
        parseFloat (priceAsk (ticks ! k)) = of_int (rowField32 buf k 12) / 100000 \<and>
        parseFloat (sizeBid (ticks ! k)) = of_int (rowField32 buf k 16) / 100 \<and>
        parseFloat (sizeAsk (ticks ! k)) = of_int (rowField32 buf k 20) / 100 \<and>
        bid_price (ticks ! k) = priceBid (ticks ! k) \<and> ask_price (ticks ! k) = priceAsk (ticks ! k) \<and>
        bid_size (ticks ! k) = sizeBid (ticks ! k) \<and> ask_size (ticks ! k) = sizeAsk (ticks ! k))"
proof -
  from parseBinaryData_valid [OF assms] obtain ticks where
    p: "parseBinaryData buf = Inr ticks" and l: "length ticks = headerNumRows buf"
    and r: "\<forall>k < headerNumRows buf.
           Inr (ticks ! k) = parseRow buf (headerInitialTimestampUs buf) (17 + k * 24)"
    by blast
  have "fixedDecimal 5 (priceBid (ticks ! k)) \<and> fixedDecimal 5 (priceAsk (ticks ! k)) \<and>
        fixedDecimal 2 (sizeBid (ticks ! k)) \<and> fixedDecimal 2 (sizeAsk (ticks ! k)) \<and>
        parseFloat (priceBid (ticks ! k)) = of_int (rowField32 buf k 8) / 100000 \<and>
        parseFloat (priceAsk (ticks ! k)) = of_int (rowField32 buf k 12) / 100000 \<and>
        parseFloat (sizeBid (ticks ! k)) = of_int (rowField32 buf k 16) / 100 \<and>
        parseFloat (sizeAsk (ticks ! k)) = of_int (rowField32 buf k 20) / 100 \<and>
        bid_price (ticks ! k) = priceBid (ticks ! k) \<and> ask_price (ticks ! k) = priceAsk (ticks ! k) \<and>
        bid_size (ticks ! k) = sizeBid (ticks ! k) \<and> ask_size (ticks ! k) = sizeAsk (ticks ! k)"
    if k: "k < headerNumRows buf" for k
  proof -
    from assms k have fits: "17 + k * 24 + 24 \<le> length buf" by (simp add: validTickBuffer_def)
    from r k have "Inr (ticks ! k) = parseRow buf (headerInitialTimestampUs buf) (17 + k * 24)" by blast
    then have t: "ticks ! k =
         \<lparr>timestamp = trunc (usToMs (headerInitialTimestampUs buf + rowDeltaTimeUs buf k)),
          time = trunc (usToMs (headerInitialTimestampUs buf + rowDeltaTimeUs buf k)),
          priceBid = toFixed 5 (round64 (of_int (rowField32 buf k 8) / PRICE_SCALE)),
          priceAsk = toFixed 5 (round64 (of_int (rowField32 buf k 12) / PRICE_SCALE)),
          sizeBid = toFixed 2 (round64 (of_int (rowField32 buf k 16) / SIZE_SCALE)),
          sizeAsk = toFixed 2 (round64 (of_int (rowField32 buf k 20) / SIZE_SCALE)),
          bid_price = toFixed 5 (round64 (of_int (rowField32 buf k 8) / PRICE_SCALE)),
          ask_price = toFixed 5 (round64 (of_int (rowField32 buf k 12) / PRICE_SCALE)),
          bid_size = toFixed 2 (round64 (of_int (rowField32 buf k 16) / SIZE_SCALE)),
          ask_size = toFixed 2 (round64 (of_int (rowField32 buf k 20) / SIZE_SCALE))\<rparr>"
      by (simp add: parseRow_fits [OF fits] split: if_splits)
    have fd: "fixedDecimal 5 (toFixed 5 x)" "fixedDecimal 2 (toFixed 2 x)" for x
      by (rule fixedDecimal_toFixed, simp)+
    note rt = price_roundtrip [OF rowField32_bounds] size_roundtrip [OF rowField32_bounds]
    show ?thesis
      unfolding t by (simp only: tick.select_convs fd rt simp_thms)
  qed
  with p l show ?thesis by blast
qed

theorem tick_fields_fixed_format_witness:
  "validTickBuffer exampleTickBuffer \<and>
   (\<exists>ticks. parseBinaryData exampleTickBuffer = Inr ticks \<and> length ticks = 2 \<and>
      fixedDecimal 5 (priceBid (ticks ! 0)) \<and> fixedDecimal 5 (priceAsk (ticks ! 0)) \<and>
      fixedDecimal 2 (sizeBid (ticks ! Suc 0)) \<and> fixedDecimal 2 (sizeAsk (ticks ! Suc 0)))"
proof -
  from tick_fields_fixed_format [OF example_valid] obtain ticks where
    p: "parseBinaryData exampleTickBuffer = Inr ticks" and l: "length ticks = 2"
    and a: "\<And>k. k < 2 \<Longrightarrow>
        fixedDecimal 5 (priceBid (ticks ! k)) \<and> fixedDecimal 5 (priceAsk (ticks ! k)) \<and>
        fixedDecimal 2 (sizeBid (ticks ! k)) \<and> fixedDecimal 2 (sizeAsk (ticks ! k))"
    unfolding example_header by blast
  from a [of 0] a [of "Suc 0"] p l example_valid show ?thesis by auto
qed

text \<open>
  Claim C5.  A buffer that starts with the magic \<open>TICK\<close> and holds fewer than
  \<open>17 + 24 N\<close> bytes, \<open>N\<close> being the row count that its header announces, does not
  decode: \<open>parseBinaryData\<close> throws the \<open>RangeError\<close> of a read outside the buffer
  and returns no ticks.
\<close>

theorem truncated_tick_buffer_fails:
  assumes "take 4 buf = magicTICK" and "length buf < 17 + 24 * headerNumRows buf"
  shows "parseBinaryData buf = Inl RangeError"
proof (cases "length buf < 17")
  case True
  then show ?thesis by (simp add: parseBinaryData_header)
next
  case False
  with assms(2) have "0 < headerNumRows buf" by (cases "headerNumRows buf") simp_all
  from parseRows_short [OF this assms(2)] False assms(1) show ?thesis
    by (simp add: parseBinaryData_header)
qed

theorem truncated_tick_buffer_fails_witness:
  "take 4 (butlast exampleTickBuffer) = magicTICK \<and>
   length (butlast exampleTickBuffer) < 17 + 24 * headerNumRows (butlast exampleTickBuffer) \<and>
   parseBinaryData (butlast exampleTickBuffer) = Inl RangeError"
proof -
  have m: "take 4 (butlast exampleTickBuffer) = magicTICK"
    by (simp add: exampleTickBuffer_def magicTICK_def)
  have l: "length (butlast exampleTickBuffer) < 17 + 24 * headerNumRows (butlast exampleTickBuffer)"
    by (simp add: exampleTickBuffer_def headerNumRows_def leInt_def)
  from truncated_tick_buffer_fails [OF m l] m l show ?thesis by simp
qed

lemma sameDelta_header:
  "headerNumRows sameDeltaBuffer = 2"
  "headerInitialTimestampUs sameDeltaBuffer = 1700000000000000"
  "rowDeltaTimeUs sameDeltaBuffer 0 = 500000"
  "rowDeltaTimeUs sameDeltaBuffer (Suc 0) = 500000"
  "take 4 sameDeltaBuffer = magicTICK"
  "length sameDeltaBuffer = 65"
  by (simp_all add: headerNumRows_def headerInitialTimestampUs_def rowDeltaTimeUs_def
      sameDeltaBuffer_def leInt_def toSigned_def magicTICK_def)

lemma toFixed_examples:
  "toFixed 5 (round64 (150000 / PRICE_SCALE)) = ''1.50000''"
  "toFixed 5 (round64 (150200 / PRICE_SCALE)) = ''1.50200''"
  "toFixed 5 (round64 (150100 / PRICE_SCALE)) = ''1.50100''"
  "toFixed 5 (round64 (150300 / PRICE_SCALE)) = ''1.50300''"
  "toFixed 2 (round64 (100 / SIZE_SCALE)) = ''1.00''"
  "toFixed 2 (round64 (50 / SIZE_SCALE)) = ''0.50''"
  by code_simp+

text \<open>
  Against claim C2 as stated: with delta 500000 in both rows the second tick carries
  the timestamp 1700000000500, the initial timestamp plus its own delta, while the
  initial timestamp plus the sum of the first two deltas is 1700000001000.
\<close>

theorem tick_timestamps_cumulative_counterexample:
  "validTickBuffer sameDeltaBuffer \<and>
   parseBinaryData sameDeltaBuffer =
     Inr [\<lparr>timestamp = 1700000000500, time = 1700000000500,
            priceBid = ''1.50000'', priceAsk = ''1.50200'', sizeBid = ''1.00'', sizeAsk = ''1.00'',
            bid_price = ''1.50000'', ask_price = ''1.50200'', bid_size = ''1.00'', ask_size = ''1.00''\<rparr>,
          \<lparr>timestamp = 1700000000500, time = 1700000000500,
            priceBid = ''1.50100'', priceAsk = ''1.50300'', sizeBid = ''0.50'', sizeAsk = ''0.50'',
            bid_price = ''1.50100'', ask_price = ''1.50300'', bid_size = ''0.50'', ask_size = ''0.50''\<rparr>] \<and>
   trunc (usToMs (headerInitialTimestampUs sameDeltaBuffer
            + (rowDeltaTimeUs sameDeltaBuffer 0 + rowDeltaTimeUs sameDeltaBuffer (Suc 0))))
     = 1700000001000"
proof -
  have v: "validTickBuffer sameDeltaBuffer"
    by (simp add: validTickBuffer_def sameDelta_header all_less_2 usToMs_examples)
  have p: "parseBinaryData sameDeltaBuffer =
     Inr [\<lparr>timestamp = 1700000000500, time = 1700000000500,
            priceBid = ''1.50000'', priceAsk = ''1.50200'', sizeBid = ''1.00'', sizeAsk = ''1.00'',
            bid_price = ''1.50000'', ask_price = ''1.50200'', bid_size = ''1.00'', ask_size = ''1.00''\<rparr>,
          \<lparr>timestamp = 1700000000500, time = 1700000000500,
            priceBid = ''1.50100'', priceAsk = ''1.50300'', sizeBid = ''0.50'', sizeAsk = ''0.50'',
            bid_price = ''1.50100'', ask_price = ''1.50300'', bid_size = ''0.50'', ask_size = ''0.50''\<rparr>]"
    by (simp add: parseBinaryData_def parseRows.simps parseRow_def read_defs sameDeltaBuffer_def
        magicTICK_def leInt_def toSigned_def usToMs_examples toFixed_examples toISOString_def trunc_def)
  have c: "trunc (usToMs (headerInitialTimestampUs sameDeltaBuffer
            + (rowDeltaTimeUs sameDeltaBuffer 0 + rowDeltaTimeUs sameDeltaBuffer (Suc 0))))
     = 1700000001000"
    by (simp add: sameDelta_header usToMs_examples trunc_def)
  from v p c show ?thesis by simp
qed

section \<open>The level-2 decoder\<close>

lemma trunc_of_int: "trunc (of_int n) = n"
  by (simp add: trunc_def)

lemma getInt32_fits: "off + 4 \<le> length buf \<Longrightarrow> getInt32 buf off = Inr (toSigned 32 (leInt (take 4 (drop off buf))))"
  by (simp add: getInt32_def readBytes_def)

lemma getUint8_fits: "off + 1 \<le> length buf \<Longrightarrow> getUint8 buf off = Inr (nat (leInt (take 1 (drop off buf))))"
  unfolding getUint8_def readBytes_def by (simp only: if_True bindE_Inr)

lemma readL2Row_fits:
  assumes "off + 14 \<le> length buf"
  shows "readL2Row buf off =
     Inr \<lparr>r_deltaTimeMs = toSigned 32 (leInt (take 4 (drop off buf))),
          r_priceDelta = toSigned 32 (leInt (take 4 (drop (off + 4) buf))),
          r_size = toSigned 32 (leInt (take 4 (drop (off + 8) buf))),
          r_entryType = nat (leInt (take 1 (drop (off + 12) buf))),
          r_exchangeCode = nat (leInt (take 1 (drop (off + 13) buf)))\<rparr>"
proof -
  have a: "off + 4 \<le> length buf" "off + 4 + 4 \<le> length buf" "off + 8 + 4 \<le> length buf"
    "off + 12 + 1 \<le> length buf" "off + 13 + 1 \<le> length buf"
    using assms by simp_all
  show ?thesis
    unfolding readL2Row_def
    by (simp only: getInt32_fits [OF a(1)] getInt32_fits [OF a(2)] getInt32_fits [OF a(3)]
        getUint8_fits [OF a(4)] getUint8_fits [OF a(5)] bindE_Inr)
qed

lemma l2Rows_cond:
  "((of_nat i :: rat) < (of_nat (off + 14 * n) - of_nat off) / 14) = (i < n)"
proof -
  have "(of_nat (off + 14 * n) - of_nat off :: rat) / 14 = of_nat n" by simp
  then show ?thesis by (simp only: of_nat_less_iff)
qed

lemma l2EventOf_valid:
  assumes "\<bar>ct\<bar> \<le> 8640000000000000"
  shows "l2EventOf em (of_int ct) (of_int cp) r =
     Inr \<lparr>l2_timestamp = ct, l2_timestamp_ms = of_int ct,
          l2_price = parseFloat (toFixed 4 (round64 (of_int cp / PRICE_SCALE))),
          l2_size = r_size r,
          l2_exchange = (case em (r_exchangeCode r) of None \<Rightarrow> ''UNKNOWN'' | Some l \<Rightarrow> l),
          l2_entry_type = r_entryType r\<rparr>"
proof -
  have "(of_int \<bar>ct\<bar> :: rat) \<le> of_int 8640000000000000" using assms by (simp only: of_int_le_iff)
  then have "toISOString (of_int ct) = Inr ct" by (simp add: toISOString_def trunc_of_int)
  then show ?thesis by (simp add: l2EventOf_def Let_def)
qed

text \<open>The sum of two integers is exact when it is at most \<open>2\<^sup>5\<^sup>3\<close> in magnitude.\<close>

lemma round64_add_int:
  assumes "\<bar>a + b\<bar> \<le> 2 ^ 53"
  shows "round64 (of_int a + of_int b) = of_int (a + b)"
  using round64_of_int [OF assms] by simp

lemma date_range_exact: "\<bar>n\<bar> \<le> 8640000000000000 \<Longrightarrow> \<bar>n\<bar> \<le> (2 ^ 53 :: int)"
  by simp

lemma l2Rows_valid:
  assumes len: "length buf = off + 14 * n"
  shows "\<forall>k. i \<le> k \<and> k < n \<longrightarrow>
      \<bar>ct + (\<Sum>m = i..k. toSigned 32 (leInt (take 4 (drop (off + m * 14) buf))))\<bar> \<le> 8640000000000000 \<and>
      \<bar>cp + (\<Sum>m = i..k. toSigned 32 (leInt (take 4 (drop (off + m * 14 + 4) buf))))\<bar> \<le> 2 ^ 53
    \<Longrightarrow> \<exists>evs. l2Rows em buf off i (of_int ct) (of_int cp) data = Inr (data @ evs) \<and> length evs = n - i \<and>
      (\<forall>j < n - i.
         l2_timestamp_ms (evs ! j) =
           of_int (ct + (\<Sum>m = i..i + j. toSigned 32 (leInt (take 4 (drop (off + m * 14) buf))))) \<and>
         l2_price (evs ! j) =
           parseFloat (toFixed 4 (round64 (of_int
             (cp + (\<Sum>m = i..i + j. toSigned 32 (leInt (take 4 (drop (off + m * 14 + 4) buf)))))
               / PRICE_SCALE))))"
proof (induction "n - i" arbitrary: i ct cp data)
  case 0
  then have "\<not> i < n" by simp
  then have "l2Rows em buf off i (of_int ct) (of_int cp) data = Inr data"
    by (subst l2Rows.simps) (simp only: len l2Rows_cond if_False)
  with 0 show ?case by simp
next
  case (Suc d)
  let ?dt = "\<lambda>m. toSigned 32 (leInt (take 4 (drop (off + m * 14) buf)))"
  let ?dp = "\<lambda>m. toSigned 32 (leInt (take 4 (drop (off + m * 14 + 4) buf)))"
  from Suc.hyps(2) have i: "i < n" by simp
  then have fits: "off + i * 14 + 14 \<le> length buf" by (simp add: len)
  have "\<bar>ct + (\<Sum>m = i..i. ?dt m)\<bar> \<le> 8640000000000000 \<and> \<bar>cp + (\<Sum>m = i..i. ?dp m)\<bar> \<le> 2 ^ 53"
    using Suc.prems i by blast
  then have ok: "\<bar>ct + ?dt i\<bar> \<le> 8640000000000000" and okp: "\<bar>cp + ?dp i\<bar> \<le> 2 ^ 53" by simp_all
  let ?r = "\<lparr>r_deltaTimeMs = ?dt i, r_priceDelta = ?dp i,
          r_size = toSigned 32 (leInt (take 4 (drop (off + i * 14 + 8) buf))),
          r_entryType = nat (leInt (take 1 (drop (off + i * 14 + 12) buf))),
          r_exchangeCode = nat (leInt (take 1 (drop (off + i * 14 + 13) buf)))\<rparr>"
  let ?ev = "\<lparr>l2_timestamp = ct + ?dt i, l2_timestamp_ms = of_int (ct + ?dt i),
          l2_price = parseFloat (toFixed 4 (round64 (of_int (cp + ?dp i) / PRICE_SCALE))),
          l2_size = r_size ?r,
          l2_exchange = (case em (r_exchangeCode ?r) of None \<Rightarrow> ''UNKNOWN'' | Some l \<Rightarrow> l),
          l2_entry_type = r_entryType ?r\<rparr>"
  have row: "readL2Row buf (off + i * 14) = Inr ?r" by (rule readL2Row_fits [OF fits])
  have rt: "round64 (of_int ct + of_int (?dt i)) = of_int (ct + ?dt i)"
    by (rule round64_add_int [OF date_range_exact [OF ok]])
  have rp: "round64 (of_int cp + of_int (?dp i)) = of_int (cp + ?dp i)"
    by (rule round64_add_int [OF okp])
  have ev: "l2EventOf em (of_int (ct + ?dt i)) (of_int (cp + ?dp i)) ?r = Inr ?ev"
    by (rule l2EventOf_valid [OF ok])
  have step: "l2Rows em buf off i (of_int ct) (of_int cp) data =
      l2Rows em buf off (i + 1) (of_int (ct + ?dt i)) (of_int (cp + ?dp i)) (data @ [?ev])"
    by (subst l2Rows.simps)
       (simp only: len l2Rows_cond i [THEN eqTrueI] if_True row sum.case l2Row.select_convs rt rp ev)
  have d: "d = n - (i + 1)" using Suc.hyps(2) by simp
  have pre: "\<forall>k. i + 1 \<le> k \<and> k < n \<longrightarrow>
      \<bar>ct + ?dt i + (\<Sum>m = i + 1..k. ?dt m)\<bar> \<le> 8640000000000000 \<and>
      \<bar>cp + ?dp i + (\<Sum>m = i + 1..k. ?dp m)\<bar> \<le> 2 ^ 53"
  proof (intro allI impI)
    fix k assume k: "i + 1 \<le> k \<and> k < n"
    then have "\<bar>ct + (\<Sum>m = i..k. ?dt m)\<bar> \<le> 8640000000000000 \<and> \<bar>cp + (\<Sum>m = i..k. ?dp m)\<bar> \<le> 2 ^ 53"
      using Suc.prems by simp
    moreover have "(\<Sum>m = i..k. ?dt m) = ?dt i + (\<Sum>m = i + 1..k. ?dt m)"
      using k by (simp add: sum.atLeast_Suc_atMost)
    moreover have "(\<Sum>m = i..k. ?dp m) = ?dp i + (\<Sum>m = i + 1..k. ?dp m)"
      using k by (simp add: sum.atLeast_Suc_atMost)
    ultimately show "\<bar>ct + ?dt i + (\<Sum>m = i + 1..k. ?dt m)\<bar> \<le> 8640000000000000 \<and>
      \<bar>cp + ?dp i + (\<Sum>m = i + 1..k. ?dp m)\<bar> \<le> 2 ^ 53" by (simp add: add.assoc)
  qed
  from Suc.hyps(1) [OF d pre, of "data @ [?ev]"]
  obtain evs where r: "l2Rows em buf off (i + 1) (of_int (ct + ?dt i)) (of_int (cp + ?dp i)) (data @ [?ev]) = Inr ((data @ [?ev]) @ evs)"
    and l: "length evs = n - (i + 1)"
    and a: "\<forall>j < n - (i + 1).
         l2_timestamp_ms (evs ! j) = of_int (ct + ?dt i + (\<Sum>m = i + 1..i + 1 + j. ?dt m)) \<and>
         l2_price (evs ! j) =
           parseFloat (toFixed 4 (round64 (of_int (cp + ?dp i + (\<Sum>m = i + 1..i + 1 + j. ?dp m)) / PRICE_SCALE)))"
    by blast
  have res: "l2Rows em buf off i (of_int ct) (of_int cp) data = Inr (data @ (?ev # evs))"
    unfolding step r by simp
  have ln: "length (?ev # evs) = n - i" using l i by simp
  have "l2_timestamp_ms ((?ev # evs) ! j) = of_int (ct + (\<Sum>m = i..i + j. ?dt m)) \<and>
        l2_price ((?ev # evs) ! j) =
           parseFloat (toFixed 4 (round64 (of_int (cp + (\<Sum>m = i..i + j. ?dp m)) / PRICE_SCALE)))"
    if j: "j < n - i" for j
  proof (cases j)
    case 0
    then show ?thesis by simp
  next
    case (Suc j')
    then have j': "j' < n - (i + 1)" using j by simp
    have s1: "(\<Sum>m = i..i + j. ?dt m) = ?dt i + (\<Sum>m = i + 1..i + 1 + j'. ?dt m)"
      by (simp add: Suc sum.atLeast_Suc_atMost)
    have s2: "(\<Sum>m = i..i + j. ?dp m) = ?dp i + (\<Sum>m = i + 1..i + 1 + j'. ?dp m)"
      by (simp add: Suc sum.atLeast_Suc_atMost)
    from a j' show ?thesis unfolding s1 s2 by (simp add: Suc add.assoc)
  qed
  with res ln show ?case by blast
qed

lemma sum_from_0: "(\<Sum>m = 0..k. f m) = (\<Sum>m\<le>k. f m)" for f :: "nat \<Rightarrow> int"
  by (simp add: atMost_atLeast0)


lemma exampleL2_header:
  "l2Offset exampleL2Buffer = 18"
  "length exampleL2Buffer = 46"
  "l2InitialTimestampMs exampleL2Buffer = 1700000000000"
  by (simp_all add: l2Offset_def l2InitialTimestampMs_def exampleL2Buffer_def leInt_def)

lemma exampleL2_rows:
  "l2NumRows exampleL2Buffer = 2"
  "l2DeltaTimeMs exampleL2Buffer 0 = 5"
  "l2DeltaTimeMs exampleL2Buffer (Suc 0) = 7"
  "l2PriceDelta exampleL2Buffer 0 = 123456"
  "l2PriceDelta exampleL2Buffer (Suc 0) = - 441"
  by (simp_all add: l2NumRows_def l2DeltaTimeMs_def l2PriceDelta_def exampleL2_header)
     (simp_all add: exampleL2Buffer_def leInt_def toSigned_def)

lemma exampleL2_valid: "validL2Buffer exampleL2Buffer"
  by (simp add: validL2Buffer_def exampleL2_header exampleL2_rows all_less_2)

lemma roundTo4_examples:
  "roundTo4 (round64 (of_int 123456 / 100000)) = 12346 / 10000"
  "roundTo4 (round64 (of_int 123015 / 100000)) = 12302 / 10000"
  by code_simp+

lemma exampleL2_sums:
  "(\<Sum>m\<le>0. l2DeltaTimeMs exampleL2Buffer m) = 5"
  "(\<Sum>m\<le>Suc 0. l2DeltaTimeMs exampleL2Buffer m) = 12"
  "(\<Sum>m\<le>0. l2PriceDelta exampleL2Buffer m) = 123456"
  "(\<Sum>m\<le>Suc 0. l2PriceDelta exampleL2Buffer m) = 123015"
  by (simp_all add: exampleL2_rows)


lemma l2_price_examples:
  "parseFloat (toFixed 4 (round64 (123456 / PRICE_SCALE))) = 12346 / 10000"
  "parseFloat (toFixed 4 (round64 (123015 / PRICE_SCALE))) = 12302 / 10000"
  by code_simp+

lemma l2_sum_examples:
  "round64 1700000000000 = 1700000000000"
  "round64 1700000000005 = 1700000000005"
  "round64 1700000000012 = 1700000000012"
  "round64 123456 = 123456"
  "round64 123015 = 123015"
  by code_simp+



section \<open>Aggregator: incremental mode against full mode\<close>

lemma strictNeq_False: "\<not> strictNeq a b \<Longrightarrow> a = b"
  by (simp add: strictNeq_def)

lemma lineWrite_eq:
  "lineWrite b data v =
     (if data = [] \<or> strictNeq (lp_time (last data)) b
      then data @ [\<lparr>lp_time = b, lp_value = v\<rparr>]
      else data[length data - 1 := (last data)\<lparr>lp_value := v\<rparr>])"
  by (simp add: lineWrite_def updateLineSeries_def)

lemma candleWrite_eq:
  "candleWrite b candleData m =
     (if candleData = [] \<or> strictNeq (c_time (last candleData)) b
      then candleData @ [\<lparr>c_time = b, c_open = m, c_high = m, c_low = m, c_close = m\<rparr>]
      else candleData[length candleData - 1 :=
             (last candleData)\<lparr>c_high := max (c_high (last candleData)) m,
                               c_low := min (c_low (last candleData)) m,
                               c_close := m\<rparr>])"
  by (simp add: candleWrite_def updateCandles_def Let_def)

lemma updateLineSeries_eq:
  "updateLineSeries upd b series data v =
     (lineWrite b data v, upd series \<lparr>lp_time = b, lp_value = v\<rparr>)"
  by (simp add: lineWrite_def updateLineSeries_def)

lemma last_update_last: "d \<noteq> [] \<Longrightarrow> last (d[length d - Suc 0 := x]) = x"
  by (simp add: last_conv_nth)

lemma updateCandles_eq:
  "updateCandles upd b series candleData m =
     (candleWrite b candleData m, upd series (last (candleWrite b candleData m)))"
  by (simp add: candleWrite_def updateCandles_def Let_def last_update_last)

lemma lineInv_step: "lineInv (lineStep tf a tick)"
  by (simp add: lineInv_def lineStep_def Let_def)

lemma lineInv_foldl: "lineInv a \<Longrightarrow> lineInv (foldl (lineStep tf) a ticks)"
  by (induction ticks arbitrary: a) (simp_all add: lineInv_step)

lemma line_step_bid:
  "lineInv a \<Longrightarrow> la_bidData (pushCurrent (lineStep tf a tick)) =
     lineWrite (bucketTime (tk_time tick) tf) (la_bidData (pushCurrent a)) (tk_bid tick)"
  by (auto simp: lineInv_def lineStep_def pushCurrent_def lineWrite_eq currentTimeNeq_def
      Let_def dest: strictNeq_False split: option.splits)

lemma line_step_ask:
  "lineInv a \<Longrightarrow> la_askData (pushCurrent (lineStep tf a tick)) =
     lineWrite (bucketTime (tk_time tick) tf) (la_askData (pushCurrent a)) (tk_ask tick)"
  by (auto simp: lineInv_def lineStep_def pushCurrent_def lineWrite_eq currentTimeNeq_def
      Let_def dest: strictNeq_False split: option.splits)

lemma line_step_mid:
  "lineInv a \<Longrightarrow> la_midData (pushCurrent (lineStep tf a tick)) =
     lineWrite (bucketTime (tk_time tick) tf) (la_midData (pushCurrent a)) (tk_mid tick)"
  by (auto simp: lineInv_def lineStep_def pushCurrent_def lineWrite_eq currentTimeNeq_def
      Let_def dest: strictNeq_False split: option.splits)

lemma candle_step:
  "ca_current a = None \<longrightarrow> ca_candles a = [] \<Longrightarrow>
   pushCandle (candleStep tf a tick) =
     candleWrite (bucketTime (tk_time tick) tf) (pushCandle a) (tk_mid tick)"
  by (auto simp: candleStep_def pushCandle_def candleWrite_eq candleTimeNeq_def
      Let_def dest: strictNeq_False split: option.splits)

lemma line_fold_bid:
  "lineInv a \<Longrightarrow> la_bidData (pushCurrent (foldl (lineStep tf) a ticks)) =
     foldl (\<lambda>d tick. lineWrite (bucketTime (tk_time tick) tf) d (tk_bid tick))
       (la_bidData (pushCurrent a)) ticks"
  by (induction ticks arbitrary: a) (simp_all add: line_step_bid lineInv_step)

lemma line_fold_ask:
  "lineInv a \<Longrightarrow> la_askData (pushCurrent (foldl (lineStep tf) a ticks)) =
     foldl (\<lambda>d tick. lineWrite (bucketTime (tk_time tick) tf) d (tk_ask tick))
       (la_askData (pushCurrent a)) ticks"
  by (induction ticks arbitrary: a) (simp_all add: line_step_ask lineInv_step)

lemma line_fold_mid:
  "lineInv a \<Longrightarrow> la_midData (pushCurrent (foldl (lineStep tf) a ticks)) =
     foldl (\<lambda>d tick. lineWrite (bucketTime (tk_time tick) tf) d (tk_mid tick))
       (la_midData (pushCurrent a)) ticks"
  by (induction ticks arbitrary: a) (simp_all add: line_step_mid lineInv_step)

lemma candleInv_step: "candleInv (candleStep tf a tick)"
  by (auto simp: candleInv_def candleStep_def candleTimeNeq_def Let_def split: option.splits)

lemma candle_fold:
  "candleInv a \<Longrightarrow> pushCandle (foldl (candleStep tf) a ticks) =
     foldl (\<lambda>d tick. candleWrite (bucketTime (tk_time tick) tf) d (tk_mid tick))
       (pushCandle a) ticks"
proof (induction ticks arbitrary: a)
  case Nil
  then show ?case by simp
next
  case (Cons t ticks)
  have "pushCandle (candleStep tf a t) = candleWrite (bucketTime (tk_time t) tf) (pushCandle a) (tk_mid t)"
    using Cons.prems by (intro candle_step) (simp add: candleInv_def)
  then show ?case using Cons.IH [OF candleInv_step] by simp
qed

lemma aggregateLineData_folds:
  "aggregateLineData ticks tf =
     \<lparr>ld_bid = foldl (\<lambda>d tick. lineWrite (bucketTime (tk_time tick) tf) d (tk_bid tick)) [] ticks,
      ld_ask = foldl (\<lambda>d tick. lineWrite (bucketTime (tk_time tick) tf) d (tk_ask tick)) [] ticks,
      ld_mid = foldl (\<lambda>d tick. lineWrite (bucketTime (tk_time tick) tf) d (tk_mid tick)) [] ticks\<rparr>"
proof -
  let ?a0 = "\<lparr>la_bidData = [], la_askData = [], la_midData = [], la_current = None\<rparr>"
  have i: "lineInv ?a0" by (simp add: lineInv_def)
  have p: "pushCurrent ?a0 = ?a0" by (simp add: pushCurrent_def)
  show ?thesis
    unfolding aggregateLineData_def Let_def line_fold_bid [OF i] line_fold_ask [OF i]
      line_fold_mid [OF i] p
    by simp
qed

lemma aggregateCandleData_fold:
  "aggregateCandleData ticks tf =
     foldl (\<lambda>d tick. candleWrite (bucketTime (tk_time tick) tf) d (tk_mid tick)) [] ticks"
proof -
  let ?a0 = "\<lparr>ca_candles = [], ca_current = None\<rparr>"
  have i: "candleInv ?a0" by (simp add: candleInv_def)
  have p: "pushCandle ?a0 = []" by (simp add: pushCandle_def)
  show ?thesis
    unfolding aggregateCandleData_def candle_fold [OF i] p
    by simp
qed

subsection \<open>One run of the live-tick effect\<close>

lemma andThen_fst_False:
  "\<not> snd (andThen f g st) \<Longrightarrow> \<not> snd (f st) \<and> andThen f g st = g (fst (f st))"
  by (auto simp: andThen_def split: prod.splits if_splits)

lemma andThen_cases:
  "andThen f g st = (if snd (f st) then (fst (f st), True) else g (fst (f st)))"
  by (auto simp: andThen_def split: prod.splits)

text \<open>What each statement leaves in the arrays, whether it throws or not.\<close>

lemma pushTick_simps:
  "snd (pushTick q st) = False"
  "allTicksData (fst (pushTick q st)) = allTicksData st @ [quoteTick q]"
  "aggregatedLineData (fst (pushTick q st)) = aggregatedLineData st"
  "aggregatedCandleData (fst (pushTick q st)) = aggregatedCandleData st"
  "emaData (fst (pushTick q st)) = emaData st"
  "seriesRefs (fst (pushTick q st)) = seriesRefs st"
  by (simp_all add: pushTick_def)

lemma updateBid_simps:
  "allTicksData (fst (updateBid upd b v st)) = allTicksData st"
  "ld_bid (aggregatedLineData (fst (updateBid upd b v st))) = lineWrite b (ld_bid (aggregatedLineData st)) v"
  "ld_ask (aggregatedLineData (fst (updateBid upd b v st))) = ld_ask (aggregatedLineData st)"
  "ld_mid (aggregatedLineData (fst (updateBid upd b v st))) = ld_mid (aggregatedLineData st)"
  "aggregatedCandleData (fst (updateBid upd b v st)) = aggregatedCandleData st"
  "emaData (fst (updateBid upd b v st)) = emaData st"
  by (simp_all add: updateBid_def updateLineSeries_eq Let_def split: option.splits)

lemma updateAsk_simps:
  "allTicksData (fst (updateAsk upd b v st)) = allTicksData st"
  "ld_bid (aggregatedLineData (fst (updateAsk upd b v st))) = ld_bid (aggregatedLineData st)"
  "ld_ask (aggregatedLineData (fst (updateAsk upd b v st))) = lineWrite b (ld_ask (aggregatedLineData st)) v"
  "ld_mid (aggregatedLineData (fst (updateAsk upd b v st))) = ld_mid (aggregatedLineData st)"
  "aggregatedCandleData (fst (updateAsk upd b v st)) = aggregatedCandleData st"
  "emaData (fst (updateAsk upd b v st)) = emaData st"
  by (simp_all add: updateAsk_def updateLineSeries_eq Let_def split: option.splits)

lemma updateMid_simps:
  "allTicksData (fst (updateMid upd b v st)) = allTicksData st"
  "ld_bid (aggregatedLineData (fst (updateMid upd b v st))) = ld_bid (aggregatedLineData st)"
  "ld_ask (aggregatedLineData (fst (updateMid upd b v st))) = ld_ask (aggregatedLineData st)"
  "ld_mid (aggregatedLineData (fst (updateMid upd b v st))) = lineWrite b (ld_mid (aggregatedLineData st)) v"
  "aggregatedCandleData (fst (updateMid upd b v st)) = aggregatedCandleData st"
  "emaData (fst (updateMid upd b v st)) = emaData st"
  by (simp_all add: updateMid_def updateLineSeries_eq Let_def split: option.splits)

lemma updateCandlestick_simps:
  "allTicksData (fst (updateCandlestick upd b m st)) = allTicksData st"
  "aggregatedLineData (fst (updateCandlestick upd b m st)) = aggregatedLineData st"
  "aggregatedCandleData (fst (updateCandlestick upd b m st)) = candleWrite b (aggregatedCandleData st) m"
  "emaData (fst (updateCandlestick upd b m st)) = emaData st"
  by (simp_all add: updateCandlestick_def updateCandles_eq Let_def split: option.splits)

lemma updateEma9_simps:
  "allTicksData (fst (updateEma9 upd st)) = allTicksData st"
  "aggregatedLineData (fst (updateEma9 upd st)) = aggregatedLineData st"
  "aggregatedCandleData (fst (updateEma9 upd st)) = aggregatedCandleData st"
  "emaData (fst (updateEma9 upd st)) = emaData st"
  by (simp_all add: updateEma9_def split: option.splits)

lemma updateEma20_simps:
  "allTicksData (fst (updateEma20 upd st)) = allTicksData st"
  "aggregatedLineData (fst (updateEma20 upd st)) = aggregatedLineData st"
  "aggregatedCandleData (fst (updateEma20 upd st)) = aggregatedCandleData st"
  "emaData (fst (updateEma20 upd st)) = emaData st"
  by (simp_all add: updateEma20_def split: option.splits)

lemma updateEMAs_simps:
  "allTicksData (fst (updateEMAs upd ema st)) = allTicksData st"
  "aggregatedLineData (fst (updateEMAs upd ema st)) = aggregatedLineData st"
  "aggregatedCandleData (fst (updateEMAs upd ema st)) = aggregatedCandleData st"
  "emaData (fst (updateEMAs upd ema st)) = calculateEMAs ema (ld_mid (aggregatedLineData st))"
  by (simp_all add: updateEMAs_def andThen_cases updateEma9_simps updateEma20_simps)

lemmas stmt_simps = pushTick_simps updateBid_simps updateAsk_simps updateMid_simps
  updateCandlestick_simps updateEma9_simps updateEma20_simps updateEMAs_simps

lemma liveTick_ticks:
  "allTicksData (liveTick lineUpd candleUpd ema tf st q) = allTicksData st @ [quoteTick q]"
  by (simp add: liveTick_def liveTickTry_def Let_def andThen_cases stmt_simps)

lemma liveTick_candles:
  "aggregatedCandleData (liveTick lineUpd candleUpd ema tf st q) = aggregatedCandleData st
   \<or> aggregatedCandleData (liveTick lineUpd candleUpd ema tf st q) =
       candleWrite (bucketTime (q_t q) tf) (aggregatedCandleData st) (midPrice q)"
  by (simp add: liveTick_def liveTickTry_def Let_def andThen_cases stmt_simps)

text \<open>What a run of the effect leaves when no statement of the \<open>try\<close> block throws.\<close>

lemma liveTick_completed:
  assumes "\<not> snd (liveTickTry lineUpd candleUpd ema tf q st)"
  shows "ld_bid (aggregatedLineData (liveTick lineUpd candleUpd ema tf st q)) =
           lineWrite (bucketTime (q_t q) tf) (ld_bid (aggregatedLineData st)) (q_bid q)"
    and "ld_ask (aggregatedLineData (liveTick lineUpd candleUpd ema tf st q)) =
           lineWrite (bucketTime (q_t q) tf) (ld_ask (aggregatedLineData st)) (q_ask q)"
    and "ld_mid (aggregatedLineData (liveTick lineUpd candleUpd ema tf st q)) =
           lineWrite (bucketTime (q_t q) tf) (ld_mid (aggregatedLineData st)) (midPrice q)"
    and "aggregatedCandleData (liveTick lineUpd candleUpd ema tf st q) =
           candleWrite (bucketTime (q_t q) tf) (aggregatedCandleData st) (midPrice q)"
    and "emaData (liveTick lineUpd candleUpd ema tf st q) =
           calculateEMAs ema (ld_mid (aggregatedLineData (liveTick lineUpd candleUpd ema tf st q)))"
  using assms
  by (simp_all add: liveTick_def liveTickTry_def Let_def andThen_cases stmt_simps split: if_splits)

lemma replay_ticks:
  "allTicksData (foldl (liveTick lineUpd candleUpd ema tf) st qs) = allTicksData st @ map quoteTick qs"
  by (induction qs arbitrary: st) (simp_all add: liveTick_ticks)

lemma replay_bid:
  "noThrow lineUpd candleUpd ema tf st qs \<Longrightarrow>
   ld_bid (aggregatedLineData (foldl (liveTick lineUpd candleUpd ema tf) st qs)) =
     foldl (\<lambda>d tick. lineWrite (bucketTime (tk_time tick) tf) d (tk_bid tick))
       (ld_bid (aggregatedLineData st)) (map quoteTick qs)"
  by (induction qs arbitrary: st) (simp_all add: liveTick_completed quoteTick_def)

lemma replay_ask:
  "noThrow lineUpd candleUpd ema tf st qs \<Longrightarrow>
   ld_ask (aggregatedLineData (foldl (liveTick lineUpd candleUpd ema tf) st qs)) =
     foldl (\<lambda>d tick. lineWrite (bucketTime (tk_time tick) tf) d (tk_ask tick))
       (ld_ask (aggregatedLineData st)) (map quoteTick qs)"
  by (induction qs arbitrary: st) (simp_all add: liveTick_completed quoteTick_def)

lemma replay_mid:
  "noThrow lineUpd candleUpd ema tf st qs \<Longrightarrow>
   ld_mid (aggregatedLineData (foldl (liveTick lineUpd candleUpd ema tf) st qs)) =
     foldl (\<lambda>d tick. lineWrite (bucketTime (tk_time tick) tf) d (tk_mid tick))
       (ld_mid (aggregatedLineData st)) (map quoteTick qs)"
  by (induction qs arbitrary: st) (simp_all add: liveTick_completed quoteTick_def)

lemma replay_candles:
  "noThrow lineUpd candleUpd ema tf st qs \<Longrightarrow>
   aggregatedCandleData (foldl (liveTick lineUpd candleUpd ema tf) st qs) =
     foldl (\<lambda>d tick. candleWrite (bucketTime (tk_time tick) tf) d (tk_mid tick))
       (aggregatedCandleData st) (map quoteTick qs)"
  by (induction qs arbitrary: st) (simp_all add: liveTick_completed quoteTick_def)


text \<open>The bucket times and the roundings of the example quotes, and the definitions
  that evaluate a run of the effect.\<close>

lemma bucket_examples:
  "bucketTime 0 60 = Num 0" "bucketTime 1 60 = Num 0" "bucketTime 2 60 = Num 0"
  "bucketTime 61 60 = Num 60" "bucketTime 62 60 = Num 60"
  by code_simp+

lemma round64_examples:
  "round64 22 = 22" "round64 18 = 18" "round64 20 = 20"
  "round64 11 = 11" "round64 9 = 9" "round64 10 = 10"
  by code_simp+

lemmas effect_defs = replay_def liveTick_def liveTickTry_def andThen_def pushTick_def updateBid_def
  updateAsk_def updateMid_def updateCandlestick_def updateEMAs_def updateEma9_def updateEma20_def
  updateLineSeries_eq updateCandles_eq lineWrite_eq candleWrite_eq chartUpdate_def strictNeq_def
  calculateEMAs_def emaPoints_def emaAt_def closePrices_def ta_ema_def quoteTick_def midPrice_def
  emptyState_def Let_def List.map_filter_def aggregateLineData_folds aggregateCandleData_fold
  bucket_examples round64_examples

lemma exampleQuotes_noThrow:
  "noThrow (chartUpdate lp_time) (chartUpdate c_time) ta_ema 60 emptyState exampleQuotes"
  by (simp add: exampleQuotes_def effect_defs)




section \<open>The candle invariant\<close>

lemma candleWrite_ok:
  assumes "\<forall>c \<in> set d. candleOK c"
  shows "\<forall>c \<in> set (candleWrite b d m). candleOK c"
proof (cases "d = [] \<or> strictNeq (c_time (last d)) b")
  case True
  then show ?thesis using assms by (auto simp: candleWrite_eq candleOK_def)
next
  case False
  then have ne: "d \<noteq> []" by simp
  then have l: "candleOK (last d)" using assms by simp
  have "candleOK ((last d)\<lparr>c_high := max (c_high (last d)) m, c_low := min (c_low (last d)) m, c_close := m\<rparr>)"
    using l by (auto simp: candleOK_def)
  then show ?thesis using False assms
    by (auto simp: candleWrite_eq dest!: subsetD [OF set_update_subset_insert])
qed

lemma fold_candleWrite_ok:
  "\<forall>c \<in> set d. candleOK c \<Longrightarrow>
   \<forall>c \<in> set (foldl (\<lambda>d tick. candleWrite (bucketTime (tk_time tick) tf) d (tk_mid tick)) d ticks). candleOK c"
proof (induction ticks arbitrary: d)
  case Nil
  then show ?case by simp
next
  case (Cons t ticks)
  show ?case using Cons.IH [OF candleWrite_ok [OF Cons.prems]] by simp
qed

lemma liveTick_candles_ok:
  assumes "\<forall>c \<in> set (aggregatedCandleData st). candleOK c"
  shows "\<forall>c \<in> set (aggregatedCandleData (liveTick lineUpd candleUpd ema tf st q)). candleOK c"
  using liveTick_candles [of lineUpd candleUpd ema tf st q] assms candleWrite_ok [OF assms]
  by auto

lemma foldl_liveTick_candles_ok:
  "\<forall>c \<in> set (aggregatedCandleData st). candleOK c \<Longrightarrow>
   \<forall>c \<in> set (aggregatedCandleData (foldl (liveTick lineUpd candleUpd ema tf) st qs)). candleOK c"
proof (induction qs arbitrary: st)
  case Nil
  then show ?case by simp
next
  case (Cons q qs)
  show ?case using Cons.IH [OF liveTick_candles_ok [OF Cons.prems]] by simp
qed

text \<open>
  Claim C7.  Every candle of the incremental series, after any number of live ticks, and
  every candle of a full-mode aggregation satisfies \<open>low \<le> min(open, close)\<close> and
  \<open>max(open, close) \<le> high\<close>.  The last candle of either series is the open one, so
  the invariant holds during the open lifetime of a candle as well as afterwards.  It
  holds whether or not a call of the charting library throws.
\<close>

theorem candle_invariant:
  "(\<forall>c \<in> set (aggregatedCandleData (replay lineUpd candleUpd ema tf qs)).
      c_low c \<le> min (c_open c) (c_close c) \<and> max (c_open c) (c_close c) \<le> c_high c)
   \<and> (\<forall>c \<in> set (aggregateCandleData ticks tf).
      c_low c \<le> min (c_open c) (c_close c) \<and> max (c_open c) (c_close c) \<le> c_high c)"
proof -
  have e: "\<forall>c \<in> set ([] :: candle list). candleOK c" by simp
  have "\<forall>c \<in> set (aggregatedCandleData (replay lineUpd candleUpd ema tf qs)). candleOK c"
    unfolding replay_def by (rule foldl_liveTick_candles_ok) (simp add: emptyState_def)
  moreover have "\<forall>c \<in> set (aggregateCandleData ticks tf). candleOK c"
    unfolding aggregateCandleData_fold by (rule fold_candleWrite_ok [OF e])
  ultimately show ?thesis by (simp add: candleOK_def)
qed

lemma ex_candles:
  "aggregatedCandleData (replay (chartUpdate lp_time) (chartUpdate c_time) ta_ema 60 exampleQuotes) =
   [\<lparr>c_time = Num 0, c_open = 11, c_high = 11, c_low = 9, c_close = 10\<rparr>,
    \<lparr>c_time = Num 60, c_open = 11, c_high = 11, c_low = 11, c_close = 11\<rparr>]"
  by (simp add: exampleQuotes_def effect_defs)

lemma ex_candles_full: "aggregateCandleData (map quoteTick exampleQuotes) 60 =
   [\<lparr>c_time = Num 0, c_open = 11, c_high = 11, c_low = 9, c_close = 10\<rparr>,
    \<lparr>c_time = Num 60, c_open = 11, c_high = 11, c_low = 11, c_close = 11\<rparr>]"
  by (simp add: exampleQuotes_def effect_defs)

theorem candle_invariant_witness:
  "\<lparr>c_time = Num 0, c_open = 11, c_high = 11, c_low = 9, c_close = 10\<rparr>
      \<in> set (aggregatedCandleData (replay (chartUpdate lp_time) (chartUpdate c_time) ta_ema 60 exampleQuotes))
   \<and> \<lparr>c_time = Num 0, c_open = 11, c_high = 11, c_low = 9, c_close = 10\<rparr>
      \<in> set (aggregateCandleData (map quoteTick exampleQuotes) 60)
   \<and> (9::rat) \<le> min 11 10 \<and> max 11 10 \<le> (11::rat)"
proof -
  let ?c = "\<lparr>c_time = Num 0, c_open = 11, c_high = 11, c_low = 9, c_close = 10\<rparr>"
  have m1: "?c \<in> set (aggregatedCandleData (replay (chartUpdate lp_time) (chartUpdate c_time) ta_ema 60 exampleQuotes))"
    unfolding ex_candles by simp
  have m2: "?c \<in> set (aggregateCandleData (map quoteTick exampleQuotes) 60)"
    unfolding ex_candles_full by simp
  note ci = candle_invariant [of "chartUpdate lp_time" "chartUpdate c_time" ta_ema 60 exampleQuotes
      "map quoteTick exampleQuotes"]
  from ci [THEN conjunct1, THEN bspec, OF m1] ci [THEN conjunct2, THEN bspec, OF m2]
  have "(9::rat) \<le> min 11 10 \<and> max 11 10 \<le> (11::rat)" by simp
  with m1 m2 show ?thesis by (intro conjI) (assumption | simp)+
qed


end
